theory Spec2Isabelle
  imports Complex_Main "HOL-Library.Word"
begin

unbundle bit_operations_syntax

section \<open>VkUtil.h\<close>

subsection \<open>VkResult and vkToString\<close>

text \<open>
  The result codes are the ones that the switch of \<open>vkToString(VkResult)\<close> names, in its
  order; \<open>VK_RESULT_UNLISTED\<close> stands for every other value, the \<open>default\<close> branch.
\<close>

datatype VkResult =
    VK_SUCCESS
  | VK_NOT_READY
  | VK_TIMEOUT
  | VK_EVENT_SET
  | VK_EVENT_RESET
  | VK_INCOMPLETE
  | VK_ERROR_OUT_OF_HOST_MEMORY
  | VK_ERROR_OUT_OF_DEVICE_MEMORY
  | VK_ERROR_INITIALIZATION_FAILED
  | VK_ERROR_DEVICE_LOST
  | VK_ERROR_MEMORY_MAP_FAILED
  | VK_ERROR_LAYER_NOT_PRESENT
  | VK_ERROR_EXTENSION_NOT_PRESENT
  | VK_ERROR_FEATURE_NOT_PRESENT
  | VK_ERROR_INCOMPATIBLE_DRIVER
  | VK_ERROR_TOO_MANY_OBJECTS
  | VK_ERROR_FORMAT_NOT_SUPPORTED
  | VK_ERROR_FRAGMENTED_POOL
  | VK_ERROR_UNKNOWN
  | VK_ERROR_OUT_OF_POOL_MEMORY
  | VK_ERROR_INVALID_EXTERNAL_HANDLE
  | VK_ERROR_FRAGMENTATION
  | VK_ERROR_INVALID_OPAQUE_CAPTURE_ADDRESS
  | VK_PIPELINE_COMPILE_REQUIRED
  | VK_ERROR_SURFACE_LOST_KHR
  | VK_ERROR_NATIVE_WINDOW_IN_USE_KHR
  | VK_SUBOPTIMAL_KHR
  | VK_ERROR_OUT_OF_DATE_KHR
  | VK_ERROR_INCOMPATIBLE_DISPLAY_KHR
  | VK_ERROR_VALIDATION_FAILED_EXT
  | VK_ERROR_INVALID_SHADER_NV
  | VK_ERROR_INVALID_DRM_FORMAT_MODIFIER_PLANE_LAYOUT_EXT
  | VK_ERROR_NOT_PERMITTED_KHR
  | VK_ERROR_FULL_SCREEN_EXCLUSIVE_MODE_LOST_EXT
  | VK_THREAD_IDLE_KHR
  | VK_THREAD_DONE_KHR
  | VK_OPERATION_DEFERRED_KHR
  | VK_OPERATION_NOT_DEFERRED_KHR
  | VK_RESULT_UNLISTED

fun vkToString :: "VkResult \<Rightarrow> string" where
  "vkToString VK_SUCCESS = ''VK_SUCCESS''"
| "vkToString VK_NOT_READY = ''VK_NOT_READY''"
| "vkToString VK_TIMEOUT = ''VK_TIMEOUT''"
| "vkToString VK_EVENT_SET = ''VK_EVENT_SET''"
| "vkToString VK_EVENT_RESET = ''VK_EVENT_RESET''"
| "vkToString VK_INCOMPLETE = ''VK_INCOMPLETE''"
| "vkToString VK_ERROR_OUT_OF_HOST_MEMORY = ''VK_ERROR_OUT_OF_HOST_MEMORY''"
| "vkToString VK_ERROR_OUT_OF_DEVICE_MEMORY = ''VK_ERROR_OUT_OF_DEVICE_MEMORY''"
| "vkToString VK_ERROR_INITIALIZATION_FAILED = ''VK_ERROR_INITIALIZATION_FAILED''"
| "vkToString VK_ERROR_DEVICE_LOST = ''VK_ERROR_DEVICE_LOST''"
| "vkToString VK_ERROR_MEMORY_MAP_FAILED = ''VK_ERROR_MEMORY_MAP_FAILED''"
| "vkToString VK_ERROR_LAYER_NOT_PRESENT = ''VK_ERROR_LAYER_NOT_PRESENT''"
| "vkToString VK_ERROR_EXTENSION_NOT_PRESENT = ''VK_ERROR_EXTENSION_NOT_PRESENT''"
| "vkToString VK_ERROR_FEATURE_NOT_PRESENT = ''VK_ERROR_FEATURE_NOT_PRESENT''"
| "vkToString VK_ERROR_INCOMPATIBLE_DRIVER = ''VK_ERROR_INCOMPATIBLE_DRIVER''"
| "vkToString VK_ERROR_TOO_MANY_OBJECTS = ''VK_ERROR_TOO_MANY_OBJECTS''"
| "vkToString VK_ERROR_FORMAT_NOT_SUPPORTED = ''VK_ERROR_FORMAT_NOT_SUPPORTED''"
| "vkToString VK_ERROR_FRAGMENTED_POOL = ''VK_ERROR_FRAGMENTED_POOL''"
| "vkToString VK_ERROR_UNKNOWN = ''VK_ERROR_UNKNOWN''"
| "vkToString VK_ERROR_OUT_OF_POOL_MEMORY = ''VK_ERROR_OUT_OF_POOL_MEMORY''"
| "vkToString VK_ERROR_INVALID_EXTERNAL_HANDLE = ''VK_ERROR_INVALID_EXTERNAL_HANDLE''"
| "vkToString VK_ERROR_FRAGMENTATION = ''VK_ERROR_FRAGMENTATION''"
| "vkToString VK_ERROR_INVALID_OPAQUE_CAPTURE_ADDRESS = ''VK_ERROR_INVALID_OPAQUE_CAPTURE_ADDRESS''"
| "vkToString VK_PIPELINE_COMPILE_REQUIRED = ''VK_PIPELINE_COMPILE_REQUIRED''"
| "vkToString VK_ERROR_SURFACE_LOST_KHR = ''VK_ERROR_SURFACE_LOST_KHR''"
| "vkToString VK_ERROR_NATIVE_WINDOW_IN_USE_KHR = ''VK_ERROR_NATIVE_WINDOW_IN_USE_KHR''"
| "vkToString VK_SUBOPTIMAL_KHR = ''VK_SUBOPTIMAL_KHR''"
| "vkToString VK_ERROR_OUT_OF_DATE_KHR = ''VK_ERROR_OUT_OF_DATE_KHR''"
| "vkToString VK_ERROR_INCOMPATIBLE_DISPLAY_KHR = ''VK_ERROR_INCOMPATIBLE_DISPLAY_KHR''"
| "vkToString VK_ERROR_VALIDATION_FAILED_EXT = ''VK_ERROR_VALIDATION_FAILED_EXT''"
| "vkToString VK_ERROR_INVALID_SHADER_NV = ''VK_ERROR_INVALID_SHADER_NV''"
| "vkToString VK_ERROR_INVALID_DRM_FORMAT_MODIFIER_PLANE_LAYOUT_EXT =
     ''VK_ERROR_INVALID_DRM_FORMAT_MODIFIER_PLANE_LAYOUT_EXT''"
| "vkToString VK_ERROR_NOT_PERMITTED_KHR = ''VK_ERROR_NOT_PERMITTED_KHR''"
| "vkToString VK_ERROR_FULL_SCREEN_EXCLUSIVE_MODE_LOST_EXT =
     ''VK_ERROR_FULL_SCREEN_EXCLUSIVE_MODE_LOST_EXT''"
| "vkToString VK_THREAD_IDLE_KHR = ''VK_THREAD_IDLE_KHR''"
| "vkToString VK_THREAD_DONE_KHR = ''VK_THREAD_DONE_KHR''"
| "vkToString VK_OPERATION_DEFERRED_KHR = ''VK_OPERATION_DEFERRED_KHR''"
| "vkToString VK_OPERATION_NOT_DEFERRED_KHR = ''VK_OPERATION_NOT_DEFERRED_KHR''"
| "vkToString VK_RESULT_UNLISTED = ''Unhandled VkResult''"

subsection \<open>vkGetMemoryTypeIndex\<close>

text \<open>
  \<open>VkPhysicalDeviceMemoryProperties\<close> holds a count and a fixed array of
  \<open>VK_MAX_MEMORY_TYPES = 32\<close> entries, of which the first \<open>memoryTypeCount\<close> are
  meaningful. The array is a list here; the lookup reads nothing else of the structure.
\<close>

record VkMemoryType =
  propertyFlags :: "32 word"
  heapIndex :: "32 word"

record VkPhysicalDeviceMemoryProperties =
  memoryTypeCount :: "32 word"
  memoryTypes :: "VkMemoryType list"

record VkMemoryRequirements =
  size' :: "64 word"
  alignment :: "64 word"
  memoryTypeBits :: "32 word"

text \<open>
  The loop \<open>for (auto i = 0; i != memoryTypeCount; ++i)\<close>, from index \<open>i\<close> on. The result
  is the returned \<open>VkResult\<close> with the value stored through \<open>memoryTypeIndex\<close>.
  \<open>None\<close> is undefined behaviour: the shift \<open>1 << i\<close> of an \<open>int\<close> by 32 or more, or a read
  behind the end of the array. (\<open>1 << 31\<close> converts to the unsigned \<open>0x80000000\<close> in the
  \<open>&\<close> with the 32-bit mask.)
\<close>

function vkGetMemoryTypeIndex_from ::
  "nat \<Rightarrow> VkPhysicalDeviceMemoryProperties \<Rightarrow> VkMemoryRequirements \<Rightarrow> 32 word
     \<Rightarrow> (VkResult \<times> 32 word) option" where
  "vkGetMemoryTypeIndex_from i physicalDeviceMemoryProperties memoryRequirements memoryPropertyFlags =
     (if i \<noteq> unat (memoryTypeCount physicalDeviceMemoryProperties) then
        if 32 \<le> i \<or> length (memoryTypes physicalDeviceMemoryProperties) \<le> i then None
        else if memoryTypeBits memoryRequirements AND push_bit i 1 \<noteq> 0 then
          if propertyFlags (memoryTypes physicalDeviceMemoryProperties ! i) AND memoryPropertyFlags
               = memoryPropertyFlags
          then Some (VK_SUCCESS, word_of_nat i)
          else vkGetMemoryTypeIndex_from (i + 1) physicalDeviceMemoryProperties
                 memoryRequirements memoryPropertyFlags
        else vkGetMemoryTypeIndex_from (i + 1) physicalDeviceMemoryProperties
               memoryRequirements memoryPropertyFlags
      else Some (VK_ERROR_UNKNOWN, 0xFFFFFFFF))"
  by pat_completeness auto
termination
  by (relation "measure (\<lambda>(i, _). 32 - i)") auto

declare vkGetMemoryTypeIndex_from.simps [simp del]

definition vkGetMemoryTypeIndex ::
  "VkPhysicalDeviceMemoryProperties \<Rightarrow> VkMemoryRequirements \<Rightarrow> 32 word
     \<Rightarrow> (VkResult \<times> 32 word) option" where
  "vkGetMemoryTypeIndex = vkGetMemoryTypeIndex_from 0"

text \<open>
  What the lookup is asked to find: an index of the table whose bit is set in the
  requirements' mask and whose property flags contain all the desired ones.
\<close>

definition memory_type_matches ::
  "VkPhysicalDeviceMemoryProperties \<Rightarrow> VkMemoryRequirements \<Rightarrow> 32 word \<Rightarrow> nat \<Rightarrow> bool" where
  "memory_type_matches p r flags i \<longleftrightarrow>
     i < unat (memoryTypeCount p) \<and> bit (memoryTypeBits r) i \<and>
     propertyFlags (memoryTypes p ! i) AND flags = flags"

definition memory_table_ok :: "VkPhysicalDeviceMemoryProperties \<Rightarrow> bool" where
  "memory_table_ok p \<longleftrightarrow>
     unat (memoryTypeCount p) \<le> length (memoryTypes p) \<and> length (memoryTypes p) \<le> 32"


section \<open>Floating-point values\<close>

text \<open>
  The uniform block holds C \<open>float\<close>s, and \<open>render\<close> computes on them in \<open>double\<close>. A value
  of either format is its exact rational value, an infinity or a NaN; the two zeros are one
  value (nothing below depends on the sign of a zero). \<open>round_binary p emin emax\<close> is IEEE 754
  rounding to nearest, ties to even, into the binary format with \<open>p\<close> significant bits and
  exponents \<open>emin .. emax\<close>, subnormals and overflow to infinity included.
\<close>

datatype fp = Finite rat | PosInf | NegInf | NaN

fun bit_length :: "nat \<Rightarrow> nat" where
  "bit_length n = (if n = 0 then 0 else Suc (bit_length (n div 2)))"

declare bit_length.simps [simp del]

definition floor_log2 :: "rat \<Rightarrow> int" where
  \<comment> \<open>for \<open>0 < x\<close>: the \<open>e\<close> with \<open>2 ^ e \<le> x < 2 ^ (e + 1)\<close>\<close>
  "floor_log2 x =
     (if 1 \<le> x then int (bit_length (nat \<lfloor>x\<rfloor>)) - 1
      else - int (bit_length (nat \<lceil>1 / x\<rceil> - 1)))"

definition pow2 :: "int \<Rightarrow> rat" where
  "pow2 e = (if 0 \<le> e then 2 ^ nat e else 1 / 2 ^ nat (- e))"

definition round_half_even :: "rat \<Rightarrow> int" where
  "round_half_even q =
     (let n = \<lfloor>q\<rfloor>; d = q - of_int n
      in if d < 1 / 2 then n else if 1 / 2 < d then n + 1 else if even n then n else n + 1)"

definition round_binary :: "nat \<Rightarrow> int \<Rightarrow> int \<Rightarrow> rat \<Rightarrow> fp" where
  "round_binary p emin emax x =
     (if x = 0 then Finite 0
      else let e = max (floor_log2 \<bar>x\<bar>) emin;
               ulp = pow2 (e - int p + 1);
               y = of_int (round_half_even (x / ulp)) * ulp
           in if pow2 (emax + 1) \<le> \<bar>y\<bar> then (if 0 < x then PosInf else NegInf)
              else Finite y)"

definition float_of_rat :: "rat \<Rightarrow> fp" where
  "float_of_rat = round_binary 24 (- 126) 127"

definition double_of_rat :: "rat \<Rightarrow> fp" where
  "double_of_rat = round_binary 53 (- 1022) 1023"

text \<open>\<open>a + b\<close> in \<open>double\<close>; a \<open>float\<close> operand is promoted without change of value.\<close>

fun double_add :: "fp \<Rightarrow> fp \<Rightarrow> fp" where
  "double_add NaN _ = NaN"
| "double_add _ NaN = NaN"
| "double_add (Finite a) (Finite b) = double_of_rat (a + b)"
| "double_add PosInf NegInf = NaN"
| "double_add NegInf PosInf = NaN"
| "double_add PosInf _ = PosInf"
| "double_add NegInf _ = NegInf"
| "double_add (Finite a) b = b"

fun fp_uminus :: "fp \<Rightarrow> fp" where
  "fp_uminus (Finite a) = Finite (- a)"
| "fp_uminus PosInf = NegInf"
| "fp_uminus NegInf = PosInf"
| "fp_uminus NaN = NaN"

text \<open>The conversion of a \<open>double\<close> to \<open>float\<close> on assignment.\<close>

fun float_of_double :: "fp \<Rightarrow> fp" where
  "float_of_double (Finite a) = float_of_rat a"
| "float_of_double x = x"

text \<open>\<open>a > b\<close>: false whenever an operand is a NaN.\<close>

fun fp_greater :: "fp \<Rightarrow> fp \<Rightarrow> bool" where
  "fp_greater NaN _ = False"
| "fp_greater _ NaN = False"
| "fp_greater (Finite a) (Finite b) = (b < a)"
| "fp_greater PosInf PosInf = False"
| "fp_greater PosInf _ = True"
| "fp_greater NegInf _ = False"
| "fp_greater (Finite a) NegInf = True"
| "fp_greater (Finite a) PosInf = False"

definition float_of_uint32 :: "32 word \<Rightarrow> fp" where
  "float_of_uint32 n = float_of_rat (of_nat (unat n))"

text \<open>
  \<open>a / b\<close> in \<open>float\<close>. A zero divisor counts as \<open>+0\<close>: the only division of the program
  divides by a converted unsigned integer.
\<close>

fun float_div :: "fp \<Rightarrow> fp \<Rightarrow> fp" where
  "float_div NaN _ = NaN"
| "float_div _ NaN = NaN"
| "float_div (Finite a) (Finite b) =
     (if b = 0 then (if a = 0 then NaN else if 0 < a then PosInf else NegInf)
      else float_of_rat (a / b))"
| "float_div (Finite a) _ = Finite 0"
| "float_div PosInf (Finite b) = (if 0 \<le> b then PosInf else NegInf)"
| "float_div NegInf (Finite b) = (if 0 \<le> b then NegInf else PosInf)"
| "float_div _ _ = NaN"

section \<open>VkRenderer.cpp of hello-graceful-shutdown\<close>

subsection \<open>The uniform block\<close>

text \<open>\<open>struct Uniform { float position[8]; float ratio; }\<close>; the array is a list of 8 values.\<close>

record Uniform =
  position :: "fp list"
  ratio :: fp

text \<open>\<open>memset(uniformData, 0, sizeof(Uniform))\<close> of the constructor: every float is \<open>+0.0\<close>.\<close>

definition Uniform_memset_0 :: Uniform where
  "Uniform_memset_0 = \<lparr>position = replicate 8 (Finite 0), ratio = Finite 0\<rparr>"

text \<open>
  One pass of the body of \<open>for (auto i = 0; i < 8; i += 4)\<close> on \<open>position[i]\<close>:
  \<open>position[i] += 0.01\<close> adds in \<open>double\<close> and stores a \<open>float\<close>; the stored value is then
  compared with \<open>1.5\<close> and replaced by \<open>-1.5\<close> when it is greater.
\<close>

definition position_incremented :: "fp \<Rightarrow> fp" where
  "position_incremented x = float_of_double (double_add x (double_of_rat (1 / 100)))"

definition position_updated :: "fp \<Rightarrow> fp" where
  "position_updated x =
     (let y = position_incremented x
      in if fp_greater y (double_of_rat (3 / 2))
         then float_of_double (fp_uminus (double_of_rat (3 / 2))) else y)"

function update_position_from :: "nat \<Rightarrow> fp list \<Rightarrow> fp list" where
  "update_position_from i pos =
     (if i < 8 then update_position_from (i + 4) (pos[i := position_updated (pos ! i)])
      else pos)"
  by pat_completeness auto
termination
  by (relation "measure (\<lambda>(i, _). 8 - i)") auto

declare update_position_from.simps [simp del]

subsection \<open>The renderer object, the calls it makes, and what they return\<close>

type_synonym handle = nat

definition VK_NULL_HANDLE :: handle where
  "VK_NULL_HANDLE = 0"

record VkExtent2D =
  width :: "32 word"
  height :: "32 word"

text \<open>
  The members of the class that \<open>render\<close> and the destructor use. \<open>mUniformData\<close> holds, for
  each slot, the contents of the mapped block that the slot's pointer addresses (each
  pointer comes from its own \<open>vkMapMemory\<close> of its own allocation). The declaration of
  \<open>mFrameIndex\<close> is in a header that is not part of the sources; it is a natural number
  here, that is, its type is taken to hold every value up to the number of swapchain images.
\<close>

record VkRenderer =
  mInstance :: handle
  mDevice :: handle
  mQueue :: handle
  mSurface :: handle
  mSwapchain :: handle
  mSwapchainImages :: "handle list"
  mSwapchainImageExtent :: VkExtent2D
  mCommandPool :: handle
  mCommandBuffers :: "handle list"
  mFencesForSubmit :: "handle list"
  mFencesForAcquire :: "handle list"
  mSemaphores :: "handle list"
  mSwapchainImageViews :: "handle list"
  mRenderPass :: handle
  mFramebuffers :: "handle list"
  mVertexShaderModule :: handle
  mFragmentShaderModule :: handle
  mDescriptorSetLayout :: handle
  mPipelineLayout :: handle
  mPipeline :: handle
  mVertexBuffer :: handle
  mVertexMemory :: handle
  mUniformBuffers :: "handle list"
  mUniformMemories :: "handle list"
  mUniformData :: "Uniform list"
  mDescriptorPool :: handle
  mDescriptorSets :: "handle list"
  mTexture :: handle
  mImage :: handle
  mMemory :: handle
  mImageView :: handle
  mSampler :: handle
  mFrameIndex :: nat

text \<open>
  A call of the Vulkan API with the arguments that vary: \<open>vkWaitForFences device fence\<close>
  (one fence, wait for all, timeout \<open>UINT64_MAX\<close>), \<open>vkResetFences device fence\<close>,
  \<open>vkAcquireNextImageKHR device swapchain semaphore fence\<close> (timeout \<open>UINT64_MAX\<close>),
  \<open>vkBeginCommandBuffer commandBuffer\<close> (one-time submit),
  \<open>vkCmdBeginRenderPass commandBuffer renderPass framebuffer extent\<close>,
  \<open>vkCmdSetViewport commandBuffer width height\<close>,
  \<open>vkCmdBindVertexBuffers commandBuffer buffer\<close> (offset 0),
  \<open>vkCmdBindDescriptorSets commandBuffer layout set\<close>,
  \<open>vkCmdDraw commandBuffer 3 1 0 0\<close>,
  \<open>vkQueueSubmit queue commandBuffer signalSemaphore fence\<close>,
  \<open>vkQueuePresentKHR queue waitSemaphore swapchain imageIndex\<close>.
  \<open>vkRelease f parent objects\<close> is a call of the destroying or freeing function named \<open>f\<close>
  of the destructor. The two \<open>Store\<close> entries are not API calls: they mark the writes to
  the slot's mapped uniform block and to \<open>mFrameIndex\<close>.
\<close>

datatype vk_call =
    vkWaitForFences handle handle
  | vkResetFences handle handle
  | vkAcquireNextImageKHR handle handle handle handle
  | vkResetCommandBuffer handle
  | vkBeginCommandBuffer handle
  | vkCmdBeginRenderPass handle handle handle VkExtent2D
  | vkCmdSetViewport handle fp fp
  | vkCmdSetScissor handle VkExtent2D
  | vkCmdBindPipeline handle handle
  | vkCmdBindVertexBuffers handle handle
  | vkCmdBindDescriptorSets handle handle handle
  | vkCmdDraw handle nat nat nat nat
  | vkCmdEndRenderPass handle
  | vkEndCommandBuffer handle
  | vkQueueSubmit handle handle handle handle
  | vkQueuePresentKHR handle handle handle "32 word"
  | vkDeviceWaitIdle handle
  | vkRelease string handle "handle list"
  | StoreUniform nat
  | StoreFrameIndex nat

text \<open>
  The process as far as the claims see it: the object, the calls made so far in program
  order, each with the \<open>VkResult\<close> it returned (\<open>None\<close> for a \<open>void\<close> function and for a
  store), and the lines written to \<open>aout\<close>.
\<close>

record world =
  renderer :: VkRenderer
  calls :: "(vk_call \<times> VkResult option) list"
  aout :: "string list"

text \<open>
  A statement either completes, or the process is gone by \<open>abort()\<close>, or the behaviour is
  undefined (an index behind the end of a \<open>std::vector\<close>, an uninitialised variable, a
  remainder by zero).
\<close>

datatype result = Ok world | Abort world | Undefined

type_synonym statement = "world \<Rightarrow> result"

fun exec :: "statement list \<Rightarrow> statement" where
  "exec [] w = Ok w"
| "exec (s # ss) w =
     (case s w of Ok w' \<Rightarrow> exec ss w' | Abort w' \<Rightarrow> Abort w' | Undefined \<Rightarrow> Undefined)"

definition vk :: "vk_call \<Rightarrow> VkResult \<Rightarrow> world \<Rightarrow> VkResult \<times> world" where
  \<comment> \<open>a call of a function that returns a \<open>VkResult\<close>, here \<open>res\<close>\<close>
  "vk c res w = (res, w\<lparr>calls := calls w @ [(c, Some res)]\<rparr>)"

definition vk_void :: "vk_call \<Rightarrow> statement" where
  "vk_void c w = Ok (w\<lparr>calls := calls w @ [(c, None)]\<rparr>)"

definition discarded :: "(world \<Rightarrow> VkResult \<times> world) \<Rightarrow> statement" where
  \<comment> \<open>an expression statement: the returned \<open>VkResult\<close> is dropped\<close>
  "discarded call w = Ok (snd (call w))"

text \<open>
  The macro \<open>VK_CHECK_ERROR\<close> of VkUtil.h. Without \<open>NDEBUG\<close> it compares the result with
  \<open>VK_SUCCESS\<close> and otherwise writes the stringified argument, \<open>returns\<close>, the name of the
  result and a full stop to \<open>aout\<close>, then calls \<open>abort()\<close>. With \<open>NDEBUG\<close> its body is the
  bare argument, \<open>do { vkFunction } while (0)\<close>. The header has no semicolon after the
  argument there, so with \<open>NDEBUG\<close> no use of the macro compiles: the program that the
  sources build is the one with \<open>ndebug = False\<close>. The other value of the flag is the \<open>#else\<close> branch read
  with the semicolon supplied: the call is made and its result dropped.
\<close>

definition VK_CHECK_ERROR ::
  "bool \<Rightarrow> string \<Rightarrow> (world \<Rightarrow> VkResult \<times> world) \<Rightarrow> statement" where
  "VK_CHECK_ERROR ndebug vkFunction call w =
     (if \<not> ndebug then
        (case call w of (vkResult, w') \<Rightarrow>
           if vkResult \<noteq> VK_SUCCESS then
             Abort (w'\<lparr>aout := aout w' @ [vkFunction @ '' returns '' @ vkToString vkResult @ ''.'']\<rparr>)
           else Ok w')
      else discarded call w)"

text \<open>What the driver returns to the calls of one \<open>render\<close>, in the order of the calls.
  \<open>acquired_swapchainImageIndex\<close> is the value that \<open>vkAcquireNextImageKHR\<close> stores in
  \<open>swapchainImageIndex\<close>, \<open>None\<close> when it leaves the variable uninitialised.\<close>

record render_results =
  submit_fence_wait :: VkResult
  submit_fence_reset :: VkResult
  acquire :: VkResult
  acquired_swapchainImageIndex :: "32 word option"
  acquire_fence_wait :: VkResult
  acquire_fence_reset :: VkResult
  command_buffer_reset :: VkResult
  command_buffer_begin :: VkResult
  command_buffer_end :: VkResult
  queue_submit :: VkResult
  queue_present :: VkResult

subsection \<open>VkRenderer::render\<close>

definition update_uniform :: "nat \<Rightarrow> statement" where
  "update_uniform i w =
     (let r = renderer w;
          uniformData = mUniformData r ! i;
          uniformData = uniformData\<lparr>position := update_position_from 0 (position uniformData)\<rparr>;
          ratio = float_div (float_of_uint32 (height (mSwapchainImageExtent r)))
                    (float_of_uint32 (width (mSwapchainImageExtent r)));
          uniformData = uniformData\<lparr>ratio := ratio\<rparr>
      in Ok (w\<lparr>renderer := r\<lparr>mUniformData := (mUniformData r)[i := uniformData]\<rparr>,
               calls := calls w @ [(StoreUniform i, None)]\<rparr>))"

definition advance_frame_index :: statement where
  \<comment> \<open>\<open>mFrameIndex = ++mFrameIndex % mSwapchainImages.size()\<close>\<close>
  "advance_frame_index w =
     (let r = renderer w; n = length (mSwapchainImages r)
      in if n = 0 then Undefined
         else Ok (w\<lparr>renderer := r\<lparr>mFrameIndex := (mFrameIndex r + 1) mod n\<rparr>,
                    calls := calls w @ [(StoreFrameIndex ((mFrameIndex r + 1) mod n), None)]\<rparr>))"

text \<open>
  The arguments of \<open>VK_CHECK_ERROR\<close> in \<open>render\<close> as the preprocessor's \<open>#\<close> operator
  turns them into strings (white space runs become one blank, macros stay unexpanded).
\<close>

definition text_wait_submit :: string where
  "text_wait_submit = ''vkWaitForFences(mDevice, 1, &fenceForSubmit, VK_TRUE, UINT64_MAX)''"

definition text_reset_submit :: string where
  "text_reset_submit = ''vkResetFences(mDevice, 1, &fenceForSubmit)''"

definition text_acquire :: string where
  "text_acquire = ''vkAcquireNextImageKHR(mDevice, mSwapchain, UINT64_MAX, VK_NULL_HANDLE, fenceForAcquire, &swapchainImageIndex)''"

definition text_wait_acquire :: string where
  "text_wait_acquire = ''vkWaitForFences(mDevice, 1, &fenceForAcquire, VK_TRUE, UINT64_MAX)''"

definition text_reset_acquire :: string where
  "text_reset_acquire = ''vkResetFences(mDevice, 1, &fenceForAcquire)''"

definition text_begin :: string where
  "text_begin = ''vkBeginCommandBuffer(commandBuffer, &commandBufferBeginInfo)''"

definition text_end :: string where
  "text_end = ''vkEndCommandBuffer(commandBuffer)''"

definition text_submit :: string where
  "text_submit = ''vkQueueSubmit(mQueue, 1, &submitInfo, fenceForSubmit)''"

definition text_present :: string where
  "text_present = ''vkQueuePresentKHR(mQueue, &presentInfo)''"

text \<open>
  \<open>render\<close> in two parts. \<open>render_acquired\<close> is the body from
  \<open>auto framebuffer = mFramebuffers[swapchainImageIndex]\<close> to the end; its arguments
  \<open>r\<close>, \<open>i\<close> are the object and \<open>mFrameIndex\<close> at the start of \<open>render\<close>, from which the
  local variables \<open>fenceForSubmit\<close>, \<open>fenceForAcquire\<close>, \<open>commandBuffer\<close>, \<open>descriptorSet\<close>
  and \<open>semaphore\<close> were read.
\<close>

definition render_acquired :: "bool \<Rightarrow> render_results \<Rightarrow> VkRenderer \<Rightarrow> nat \<Rightarrow> statement" where
  "render_acquired ndebug env r i w =
     (let fenceForSubmit = mFencesForSubmit r ! i;
          fenceForAcquire = mFencesForAcquire r ! i;
          commandBuffer = mCommandBuffers r ! i;
          descriptorSet = mDescriptorSets r ! i;
          semaphore = mSemaphores r ! i
      in case acquired_swapchainImageIndex env of
           None \<Rightarrow> Undefined
         | Some swapchainImageIndex \<Rightarrow>
             if length (mFramebuffers r) \<le> unat swapchainImageIndex then Undefined
             else
               let framebuffer = mFramebuffers r ! unat swapchainImageIndex
               in exec
                [VK_CHECK_ERROR ndebug text_wait_acquire
                   (vk (vkWaitForFences (mDevice r) fenceForAcquire) (acquire_fence_wait env)),
                 VK_CHECK_ERROR ndebug text_reset_acquire
                   (vk (vkResetFences (mDevice r) fenceForAcquire) (acquire_fence_reset env)),
                 discarded (vk (vkResetCommandBuffer commandBuffer) (command_buffer_reset env)),
                 VK_CHECK_ERROR ndebug text_begin
                   (vk (vkBeginCommandBuffer commandBuffer) (command_buffer_begin env)),
                 vk_void (vkCmdBeginRenderPass commandBuffer (mRenderPass r) framebuffer
                            (mSwapchainImageExtent r)),
                 vk_void (vkCmdSetViewport commandBuffer
                            (float_of_uint32 (width (mSwapchainImageExtent r)))
                            (float_of_uint32 (height (mSwapchainImageExtent r)))),
                 vk_void (vkCmdSetScissor commandBuffer (mSwapchainImageExtent r)),
                 vk_void (vkCmdBindPipeline commandBuffer (mPipeline r)),
                 vk_void (vkCmdBindVertexBuffers commandBuffer (mVertexBuffer r)),
                 vk_void (vkCmdBindDescriptorSets commandBuffer (mPipelineLayout r) descriptorSet),
                 vk_void (vkCmdDraw commandBuffer 3 1 0 0),
                 vk_void (vkCmdEndRenderPass commandBuffer),
                 VK_CHECK_ERROR ndebug text_end
                   (vk (vkEndCommandBuffer commandBuffer) (command_buffer_end env)),
                 VK_CHECK_ERROR ndebug text_submit
                   (vk (vkQueueSubmit (mQueue r) commandBuffer semaphore fenceForSubmit)
                      (queue_submit env)),
                 VK_CHECK_ERROR ndebug text_present
                   (vk (vkQueuePresentKHR (mQueue r) semaphore (mSwapchain r) swapchainImageIndex)
                      (queue_present env)),
                 advance_frame_index] w)"

definition render :: "bool \<Rightarrow> render_results \<Rightarrow> statement" where
  "render ndebug env w =
     (let r = renderer w; i = mFrameIndex r
      in if length (mFencesForSubmit r) \<le> i \<or> length (mFencesForAcquire r) \<le> i \<or>
            length (mCommandBuffers r) \<le> i \<or> length (mUniformData r) \<le> i \<or>
            length (mDescriptorSets r) \<le> i \<or> length (mSemaphores r) \<le> i
         then Undefined
         else
           let fenceForSubmit = mFencesForSubmit r ! i;
               fenceForAcquire = mFencesForAcquire r ! i
           in exec
            [VK_CHECK_ERROR ndebug text_wait_submit
               (vk (vkWaitForFences (mDevice r) fenceForSubmit) (submit_fence_wait env)),
             VK_CHECK_ERROR ndebug text_reset_submit
               (vk (vkResetFences (mDevice r) fenceForSubmit) (submit_fence_reset env)),
             update_uniform i,
             VK_CHECK_ERROR ndebug text_acquire
               (vk (vkAcquireNextImageKHR (mDevice r) (mSwapchain r) VK_NULL_HANDLE fenceForAcquire)
                  (acquire env)),
             render_acquired ndebug env r i] w)"

text \<open>
  The frame loop of the application (which is not part of the sources) calls \<open>render\<close> once
  per frame; \<open>envs\<close> gives the driver's answers frame by frame.
\<close>

fun render_frames :: "bool \<Rightarrow> render_results list \<Rightarrow> statement" where
  "render_frames ndebug [] w = Ok w"
| "render_frames ndebug (env # envs) w =
     (case render ndebug env w of
        Ok w' \<Rightarrow> render_frames ndebug envs w'
      | Abort w' \<Rightarrow> Abort w'
      | Undefined \<Rightarrow> Undefined)"

subsection \<open>VkRenderer::~VkRenderer\<close>

definition assign :: "(VkRenderer \<Rightarrow> VkRenderer) \<Rightarrow> statement" where
  \<comment> \<open>a store to a member, such as \<open>clear()\<close> of a vector\<close>
  "assign f w = Ok (w\<lparr>renderer := f (renderer w)\<rparr>)"

definition text_device_wait_idle :: string where
  "text_device_wait_idle = ''vkDeviceWaitIdle(mDevice)''"

text \<open>
  The destructor, statement by statement. Its two arguments after the build flag are what
  \<open>vkDeviceWaitIdle\<close> and \<open>vkFreeDescriptorSets\<close> return; every other function it calls
  returns \<open>void\<close>.
\<close>

definition VkRenderer_destructor :: "bool \<Rightarrow> VkResult \<Rightarrow> VkResult \<Rightarrow> statement" where
  "VkRenderer_destructor ndebug device_wait_idle free_descriptor_sets w =
     (let r = renderer w; release = (\<lambda>f parent objects. vk_void (vkRelease f parent objects))
      in exec
        ([VK_CHECK_ERROR ndebug text_device_wait_idle
            (vk (vkDeviceWaitIdle (mDevice r)) device_wait_idle),
          discarded (vk (vkRelease ''vkFreeDescriptorSets'' (mDevice r)
                           (mDescriptorPool r # mDescriptorSets r)) free_descriptor_sets),
          release ''vkDestroyDescriptorPool'' (mDevice r) [mDescriptorPool r],
          release ''vkDestroySampler'' (mDevice r) [mSampler r],
          release ''vkDestroyImageView'' (mDevice r) [mImageView r],
          release ''vkFreeMemory'' (mDevice r) [mMemory r],
          release ''vkDestroyImage'' (mDevice r) [mImage r],
          release ''vkDestroyTexture'' (mDevice r) [mTexture r],
          assign (\<lambda>r. r\<lparr>mUniformData := []\<rparr>)] @
         map (\<lambda>uniformMemory. release ''vkUnmapMemory'' (mDevice r) [uniformMemory])
           (mUniformMemories r) @
         map (\<lambda>uniformMemory. release ''vkFreeMemory'' (mDevice r) [uniformMemory])
           (mUniformMemories r) @
         [assign (\<lambda>r. r\<lparr>mUniformMemories := []\<rparr>)] @
         map (\<lambda>uniformBuffer. release ''vkDestroyBuffer'' (mDevice r) [uniformBuffer])
           (mUniformBuffers r) @
         [assign (\<lambda>r. r\<lparr>mUniformBuffers := []\<rparr>),
          release ''vkFreeMemory'' (mDevice r) [mVertexMemory r],
          release ''vkDestroyBuffer'' (mDevice r) [mVertexBuffer r],
          release ''vkDestroyDescriptorSetLayout'' (mDevice r) [mDescriptorSetLayout r],
          release ''vkDestroyPipelineLayout'' (mDevice r) [mPipelineLayout r],
          release ''vkDestroyPipeline'' (mDevice r) [mPipeline r],
          release ''vkDestroyShaderModule'' (mDevice r) [mVertexShaderModule r],
          release ''vkDestroyShaderModule'' (mDevice r) [mFragmentShaderModule r]] @
         map (\<lambda>framebuffer. release ''vkDestroyFramebuffer'' (mDevice r) [framebuffer])
           (mFramebuffers r) @
         [assign (\<lambda>r. r\<lparr>mFramebuffers := []\<rparr>),
          release ''vkDestroyRenderPass'' (mDevice r) [mRenderPass r]] @
         map (\<lambda>imageView. release ''vkDestroyImageView'' (mDevice r) [imageView])
           (mSwapchainImageViews r) @
         [assign (\<lambda>r. r\<lparr>mSwapchainImageViews := []\<rparr>)] @
         map (\<lambda>semaphore. release ''vkDestroySemaphore'' (mDevice r) [semaphore]) (mSemaphores r) @
         [assign (\<lambda>r. r\<lparr>mSemaphores := []\<rparr>)] @
         map (\<lambda>fence. release ''vkDestroyFence'' (mDevice r) [fence]) (mFencesForAcquire r) @
         [assign (\<lambda>r. r\<lparr>mFencesForAcquire := []\<rparr>)] @
         map (\<lambda>fence. release ''vkDestroyFence'' (mDevice r) [fence]) (mFencesForSubmit r) @
         [assign (\<lambda>r. r\<lparr>mFencesForSubmit := []\<rparr>),
          release ''vkFreeCommandBuffers'' (mDevice r) (mCommandPool r # mCommandBuffers r),
          release ''vkDestroyCommandPool'' (mDevice r) [mCommandPool r],
          release ''vkDestroySwapchainKHR'' (mDevice r) [mSwapchain r],
          release ''vkDestroySurfaceKHR'' (mInstance r) [mSurface r],
          release ''vkDestroyDevice'' (mDevice r) [],
          release ''vkDestroyInstance'' (mInstance r) []]) w)"

subsection \<open>The constructor: format and present mode of the swapchain\<close>

text \<open>
  Only the format that the constructor compares with is named; \<open>VK_FORMAT_other n\<close> and
  \<open>VK_PRESENT_MODE_other n\<close> are the remaining enumerators. A colour space is its number.
\<close>

datatype VkFormat = VK_FORMAT_R8G8B8A8_UNORM | VK_FORMAT_other nat

datatype VkPresentModeKHR = VK_PRESENT_MODE_FIFO_KHR | VK_PRESENT_MODE_other nat

record VkSurfaceFormatKHR =
  format :: VkFormat
  colorSpace :: nat

definition VK_FORMAT_MAX_ENUM :: "32 word" where
  "VK_FORMAT_MAX_ENUM = 0x7FFFFFFF"

definition VK_PRESENT_MODE_MAX_ENUM_KHR :: "32 word" where
  "VK_PRESENT_MODE_MAX_ENUM_KHR = 0x7FFFFFFF"

text \<open>
  The two search loops \<open>for (auto i = 0; i != count; ++i) { if (...) { index = i; break; } }\<close>
  from \<open>i\<close> on; the result is the final value of the index variable, which starts as the
  \<open>MAX_ENUM\<close> sentinel. \<open>None\<close> is undefined behaviour: a read behind the end of the vector,
  or \<open>++i\<close> on the largest \<open>int\<close>.
\<close>

function surfaceFormatIndex_from :: "nat \<Rightarrow> 32 word \<Rightarrow> VkSurfaceFormatKHR list \<Rightarrow> 32 word option" where
  "surfaceFormatIndex_from i surfaceFormatCount surfaceFormats =
     (if i \<noteq> unat surfaceFormatCount then
        if length surfaceFormats \<le> i then None
        else if format (surfaceFormats ! i) = VK_FORMAT_R8G8B8A8_UNORM then Some (word_of_nat i)
        else if i = 2147483647 then None
        else surfaceFormatIndex_from (i + 1) surfaceFormatCount surfaceFormats
      else Some VK_FORMAT_MAX_ENUM)"
  by pat_completeness auto
termination
  by (relation "measure (\<lambda>(i, _, surfaceFormats). length surfaceFormats - i)") auto

declare surfaceFormatIndex_from.simps [simp del]

function presentModeIndex_from :: "nat \<Rightarrow> 32 word \<Rightarrow> VkPresentModeKHR list \<Rightarrow> 32 word option" where
  "presentModeIndex_from i presentModeCount presentModes =
     (if i \<noteq> unat presentModeCount then
        if length presentModes \<le> i then None
        else if presentModes ! i = VK_PRESENT_MODE_FIFO_KHR then Some (word_of_nat i)
        else if i = 2147483647 then None
        else presentModeIndex_from (i + 1) presentModeCount presentModes
      else Some VK_PRESENT_MODE_MAX_ENUM_KHR)"
  by pat_completeness auto
termination
  by (relation "measure (\<lambda>(i, _, presentModes). length presentModes - i)") auto

declare presentModeIndex_from.simps [simp del]

text \<open>
  How this part of the constructor ends: with the three values that go into
  \<open>VkSwapchainCreateInfoKHR\<close>, with a failed \<open>assert\<close> (which aborts), or undefined.
  \<open>assert\<close> is the macro of \<open><cassert>\<close>: it expands to nothing when \<open>NDEBUG\<close> is defined.
  The constructor uses \<open>VK_CHECK_ERROR\<close> in the same lines, so it is built without \<open>NDEBUG\<close>
  (\<open>ndebug = False\<close>), where the two assertions are live.
\<close>

datatype negotiation =
    Negotiated VkFormat nat VkPresentModeKHR
  | AssertionFailed string
  | UndefinedBehaviour

definition negotiate_swapchain ::
  "bool \<Rightarrow> 32 word \<Rightarrow> VkSurfaceFormatKHR list \<Rightarrow> 32 word \<Rightarrow> VkPresentModeKHR list \<Rightarrow> negotiation" where
  "negotiate_swapchain ndebug surfaceFormatCount surfaceFormats presentModeCount presentModes =
     (case surfaceFormatIndex_from 0 surfaceFormatCount surfaceFormats of
        None \<Rightarrow> UndefinedBehaviour
      | Some surfaceFormatIndex \<Rightarrow>
          if \<not> ndebug \<and> \<not> surfaceFormatIndex \<noteq> VK_FORMAT_MAX_ENUM
          then AssertionFailed ''surfaceFormatIndex != VK_FORMAT_MAX_ENUM''
          else
            (case presentModeIndex_from 0 presentModeCount presentModes of
               None \<Rightarrow> UndefinedBehaviour
             | Some presentModeIndex \<Rightarrow>
                 if \<not> ndebug \<and> \<not> presentModeIndex \<noteq> VK_PRESENT_MODE_MAX_ENUM_KHR
                 then AssertionFailed ''presentModeIndex != VK_PRESENT_MODE_MAX_ENUM_KHR''
                 else if length surfaceFormats \<le> unat surfaceFormatIndex \<or>
                         length presentModes \<le> unat presentModeIndex
                 then UndefinedBehaviour
                 else Negotiated (format (surfaceFormats ! unat surfaceFormatIndex))
                        (colorSpace (surfaceFormats ! unat surfaceFormatIndex))
                        (presentModes ! unat presentModeIndex)))"

section \<open>What the claims speak about\<close>

subsection \<open>A renderer as the constructor leaves it\<close>

text \<open>
  The constructor sizes every per-image vector with \<open>swapchainImageCount\<close>, the size of
  \<open>mSwapchainImages\<close>; \<open>render\<close> keeps \<open>mFrameIndex\<close> below it. \<open>slots_ok\<close> says that much of
  an object, for a swapchain with at least one image, and that each uniform block has its
  8 positions.
\<close>

definition slots_ok :: "VkRenderer \<Rightarrow> bool" where
  "slots_ok r \<longleftrightarrow>
     (let n = length (mSwapchainImages r)
      in 0 < n \<and> mFrameIndex r < n \<and>
         length (mCommandBuffers r) = n \<and> length (mFencesForSubmit r) = n \<and>
         length (mFencesForAcquire r) = n \<and> length (mSemaphores r) = n \<and>
         length (mFramebuffers r) = n \<and> length (mUniformData r) = n \<and>
         length (mDescriptorSets r) = n \<and>
         list_all (\<lambda>u. length (position u) = 8) (mUniformData r))"

text \<open>The driver hands out a different handle for each fence and each command buffer.\<close>

definition handles_distinct :: "VkRenderer \<Rightarrow> bool" where
  "handles_distinct r \<longleftrightarrow>
     distinct (mFencesForSubmit r @ mFencesForAcquire r) \<and> distinct (mCommandBuffers r)"

text \<open>The uniform block of the current slot as \<open>render\<close> leaves it.\<close>

definition uniform_written :: "VkRenderer \<Rightarrow> Uniform" where
  "uniform_written r =
     (mUniformData r ! mFrameIndex r)
       \<lparr>position := update_position_from 0 (position (mUniformData r ! mFrameIndex r)),
        ratio := float_div (float_of_uint32 (height (mSwapchainImageExtent r)))
                   (float_of_uint32 (width (mSwapchainImageExtent r)))\<rparr>"

definition uniform_stored :: "world \<Rightarrow> world" where
  "uniform_stored w =
     w\<lparr>renderer := (renderer w)\<lparr>mUniformData := (mUniformData (renderer w))
                      [mFrameIndex (renderer w) := uniform_written (renderer w)]\<rparr>\<rparr>"

definition slot_in_range :: "VkRenderer \<Rightarrow> bool" where
  "slot_in_range r \<longleftrightarrow>
     mFrameIndex r < length (mFencesForSubmit r) \<and> mFrameIndex r < length (mFencesForAcquire r) \<and>
     mFrameIndex r < length (mCommandBuffers r) \<and> mFrameIndex r < length (mUniformData r) \<and>
     mFrameIndex r < length (mDescriptorSets r) \<and> mFrameIndex r < length (mSemaphores r)"

definition check_message :: "string \<times> VkResult \<Rightarrow> string" where
  \<comment> \<open>the line that a failed \<open>VK_CHECK_ERROR\<close> writes\<close>
  "check_message c = fst c @ '' returns '' @ vkToString (snd c) @ ''.''"

text \<open>The calls that a statement added to the log.\<close>

definition new_calls :: "world \<Rightarrow> world \<Rightarrow> (vk_call \<times> VkResult option) list" where
  "new_calls w w' = drop (length (calls w)) (calls w')"

subsection \<open>The eight steps of a frame, as the specification lists them\<close>

text \<open>
  Each step is the list of log entries that it stands for, for a renderer \<open>r\<close> at the
  start of the call, the driver's results \<open>env\<close>, and the acquired image index.
\<close>

definition step1_wait_submit :: "VkRenderer \<Rightarrow> render_results \<Rightarrow> (vk_call \<times> VkResult option) list" where
  "step1_wait_submit r env =
     [(vkWaitForFences (mDevice r) (mFencesForSubmit r ! mFrameIndex r), Some (submit_fence_wait env)),
      (vkResetFences (mDevice r) (mFencesForSubmit r ! mFrameIndex r), Some (submit_fence_reset env))]"

definition step2_update_uniform :: "VkRenderer \<Rightarrow> (vk_call \<times> VkResult option) list" where
  "step2_update_uniform r = [(StoreUniform (mFrameIndex r), None)]"

definition step3_acquire :: "VkRenderer \<Rightarrow> render_results \<Rightarrow> (vk_call \<times> VkResult option) list" where
  "step3_acquire r env =
     [(vkAcquireNextImageKHR (mDevice r) (mSwapchain r) VK_NULL_HANDLE
         (mFencesForAcquire r ! mFrameIndex r), Some (acquire env))]"

definition step4_wait_acquire :: "VkRenderer \<Rightarrow> render_results \<Rightarrow> (vk_call \<times> VkResult option) list" where
  "step4_wait_acquire r env =
     [(vkWaitForFences (mDevice r) (mFencesForAcquire r ! mFrameIndex r), Some (acquire_fence_wait env)),
      (vkResetFences (mDevice r) (mFencesForAcquire r ! mFrameIndex r), Some (acquire_fence_reset env))]"

definition step5_record ::
  "VkRenderer \<Rightarrow> render_results \<Rightarrow> 32 word \<Rightarrow> (vk_call \<times> VkResult option) list" where
  "step5_record r env img =
     (let cb = mCommandBuffers r ! mFrameIndex r
      in [(vkResetCommandBuffer cb, Some (command_buffer_reset env)),
          (vkBeginCommandBuffer cb, Some (command_buffer_begin env)),
          (vkCmdBeginRenderPass cb (mRenderPass r) (mFramebuffers r ! unat img)
             (mSwapchainImageExtent r), None),
          (vkCmdSetViewport cb (float_of_uint32 (width (mSwapchainImageExtent r)))
             (float_of_uint32 (height (mSwapchainImageExtent r))), None),
          (vkCmdSetScissor cb (mSwapchainImageExtent r), None),
          (vkCmdBindPipeline cb (mPipeline r), None),
          (vkCmdBindVertexBuffers cb (mVertexBuffer r), None),
          (vkCmdBindDescriptorSets cb (mPipelineLayout r) (mDescriptorSets r ! mFrameIndex r), None),
          (vkCmdDraw cb 3 1 0 0, None),
          (vkCmdEndRenderPass cb, None),
          (vkEndCommandBuffer cb, Some (command_buffer_end env))])"

definition step6_submit :: "VkRenderer \<Rightarrow> render_results \<Rightarrow> (vk_call \<times> VkResult option) list" where
  "step6_submit r env =
     [(vkQueueSubmit (mQueue r) (mCommandBuffers r ! mFrameIndex r) (mSemaphores r ! mFrameIndex r)
         (mFencesForSubmit r ! mFrameIndex r), Some (queue_submit env))]"

definition step7_present ::
  "VkRenderer \<Rightarrow> render_results \<Rightarrow> 32 word \<Rightarrow> (vk_call \<times> VkResult option) list" where
  "step7_present r env img =
     [(vkQueuePresentKHR (mQueue r) (mSemaphores r ! mFrameIndex r) (mSwapchain r) img,
       Some (queue_present env))]"

definition step8_advance :: "VkRenderer \<Rightarrow> (vk_call \<times> VkResult option) list" where
  "step8_advance r =
     [(StoreFrameIndex ((mFrameIndex r + 1) mod length (mSwapchainImages r)), None)]"

definition frame_steps ::
  "VkRenderer \<Rightarrow> render_results \<Rightarrow> 32 word \<Rightarrow> (vk_call \<times> VkResult option) list" where
  "frame_steps r env img =
     step1_wait_submit r env @ step2_update_uniform r @ step3_acquire r env @
     step4_wait_acquire r env @ step5_record r env img @ step6_submit r env @
     step7_present r env img @ step8_advance r"

subsection \<open>Reading a log\<close>

text \<open>The framebuffers of the render passes begun in a log, and the slots whose uniform
  block a log writes.\<close>

fun bound_framebuffers :: "(vk_call \<times> VkResult option) list \<Rightarrow> handle list" where
  "bound_framebuffers [] = []"
| "bound_framebuffers ((c, res) # es) =
     (case c of
        vkCmdBeginRenderPass cb rp framebuffer extent \<Rightarrow> framebuffer # bound_framebuffers es
      | _ \<Rightarrow> bound_framebuffers es)"

fun slots_used :: "(vk_call \<times> VkResult option) list \<Rightarrow> nat list" where
  "slots_used [] = []"
| "slots_used ((c, res) # es) =
     (case c of StoreUniform i \<Rightarrow> i # slots_used es | _ \<Rightarrow> slots_used es)"

definition is_release :: "vk_call \<Rightarrow> bool" where
  "is_release c = (case c of vkRelease f parent objects \<Rightarrow> True | _ \<Rightarrow> False)"

text \<open>
  The results that \<open>render\<close> passes through \<open>VK_CHECK_ERROR\<close>, each with the text of its
  call, in program order.
\<close>

definition checked_calls :: "render_results \<Rightarrow> (string \<times> VkResult) list" where
  "checked_calls env =
     [(text_wait_submit, submit_fence_wait env),
      (text_reset_submit, submit_fence_reset env),
      (text_acquire, acquire env),
      (text_wait_acquire, acquire_fence_wait env),
      (text_reset_acquire, acquire_fence_reset env),
      (text_begin, command_buffer_begin env),
      (text_end, command_buffer_end env),
      (text_submit, queue_submit env),
      (text_present, queue_present env)]"

text \<open>
  The calls whose result \<open>render\<close> and the destructor pass through \<open>VK_CHECK_ERROR\<close>, and
  the part of a log that a build without \<open>NDEBUG\<close> gets to write: everything up to the
  first such call that did not return \<open>VK_SUCCESS\<close>.
\<close>

definition checked :: "vk_call \<Rightarrow> bool" where
  "checked c =
     (case c of
        vkWaitForFences device fence \<Rightarrow> True
      | vkResetFences device fence \<Rightarrow> True
      | vkAcquireNextImageKHR device swapchain semaphore fence \<Rightarrow> True
      | vkBeginCommandBuffer cb \<Rightarrow> True
      | vkEndCommandBuffer cb \<Rightarrow> True
      | vkQueueSubmit queue cb semaphore fence \<Rightarrow> True
      | vkQueuePresentKHR queue semaphore swapchain img \<Rightarrow> True
      | vkDeviceWaitIdle device \<Rightarrow> True
      | _ \<Rightarrow> False)"

fun log_until_abort :: "(vk_call \<times> VkResult option) list \<Rightarrow> (vk_call \<times> VkResult option) list" where
  "log_until_abort [] = []"
| "log_until_abort (e # es) =
     (if checked (fst e) \<and> snd e \<noteq> Some VK_SUCCESS then [e] else e # log_until_abort es)"

text \<open>The acquired image index (0 when the driver stored none).\<close>

definition image_of :: "render_results \<Rightarrow> 32 word" where
  "image_of env = (case acquired_swapchainImageIndex env of Some img \<Rightarrow> img | None \<Rightarrow> 0)"

definition first_failure :: "(string \<times> VkResult) list \<Rightarrow> (string \<times> VkResult) option" where
  "first_failure cs = find (\<lambda>(text, res). res \<noteq> VK_SUCCESS) cs"

subsection \<open>Successive values of a position\<close>

text \<open>The contents of a position array after each of \<open>n\<close> runs of the update loop.\<close>

fun position_history :: "nat \<Rightarrow> fp list \<Rightarrow> fp list list" where
  "position_history 0 pos = []"
| "position_history (Suc n) pos =
     update_position_from 0 pos # position_history n (update_position_from 0 pos)"

text \<open>The value each run of the update loop obtains at index 0 right after its addition,
  before the comparison with 1.5.\<close>

fun incremented_history :: "nat \<Rightarrow> fp list \<Rightarrow> fp list" where
  "incremented_history 0 pos = []"
| "incremented_history (Suc n) pos =
     position_incremented (pos ! 0) # incremented_history n (update_position_from 0 pos)"

text \<open>A position array whose eight floats all hold the float nearest to 1.49.\<close>

definition stored_1_49 :: "fp list" where
  "stored_1_49 = replicate 8 (float_of_rat (149 / 100))"

subsection \<open>What the CPU knows about the GPU\<close>

text \<open>
  A command buffer is in flight from a successful \<open>vkQueueSubmit\<close> until the CPU has seen
  the fence of that submission signalled, by a \<open>vkWaitForFences\<close> on it that returned
  \<open>VK_SUCCESS\<close>. A fence counts as signalled from a successful wait on it (or from its
  creation with \<open>VK_FENCE_CREATE_SIGNALED_BIT\<close>) until a successful \<open>vkResetFences\<close>.
  \<open>in_flight\<close> pairs each command buffer in flight with the fence of its submission.
\<close>

record gpu_view =
  in_flight :: "(handle \<times> handle) list"
  signalled :: "handle list"

definition observe :: "gpu_view \<Rightarrow> vk_call \<times> VkResult option \<Rightarrow> gpu_view" where
  "observe g e =
     (if snd e = Some VK_SUCCESS then
        (case fst e of
           vkQueueSubmit queue commandBuffer semaphore fence \<Rightarrow>
             g\<lparr>in_flight := (commandBuffer, fence) # in_flight g\<rparr>
         | vkWaitForFences device fence \<Rightarrow>
             g\<lparr>in_flight := filter (\<lambda>p. snd p \<noteq> fence) (in_flight g),
               signalled := fence # signalled g\<rparr>
         | vkResetFences device fence \<Rightarrow> g\<lparr>signalled := removeAll fence (signalled g)\<rparr>
         | _ \<Rightarrow> g)
      else g)"

text \<open>The command buffer that a call resets, records into, or submits.\<close>

definition command_buffer_of :: "vk_call \<Rightarrow> handle option" where
  "command_buffer_of c =
     (case c of
        vkResetCommandBuffer cb \<Rightarrow> Some cb
      | vkBeginCommandBuffer cb \<Rightarrow> Some cb
      | vkCmdBeginRenderPass cb rp fb ext \<Rightarrow> Some cb
      | vkCmdSetViewport cb w h \<Rightarrow> Some cb
      | vkCmdSetScissor cb ext \<Rightarrow> Some cb
      | vkCmdBindPipeline cb p \<Rightarrow> Some cb
      | vkCmdBindVertexBuffers cb b \<Rightarrow> Some cb
      | vkCmdBindDescriptorSets cb l s \<Rightarrow> Some cb
      | vkCmdDraw cb a b c d \<Rightarrow> Some cb
      | vkCmdEndRenderPass cb \<Rightarrow> Some cb
      | vkEndCommandBuffer cb \<Rightarrow> Some cb
      | vkQueueSubmit q cb s f \<Rightarrow> Some cb
      | _ \<Rightarrow> None)"

text \<open>
  A call respects the fence discipline when the command buffer it touches is not in
  flight and, for a submission, when the fence it passes is neither signalled already nor
  the fence of a submission in flight.
\<close>

definition allowed :: "gpu_view \<Rightarrow> vk_call \<times> VkResult option \<Rightarrow> bool" where
  "allowed g e =
     ((case command_buffer_of (fst e) of
         Some cb \<Rightarrow> cb \<notin> set (map fst (in_flight g))
       | None \<Rightarrow> True) \<and>
      (case fst e of
         vkQueueSubmit queue commandBuffer semaphore fence \<Rightarrow>
           fence \<notin> set (signalled g) \<and> fence \<notin> set (map snd (in_flight g))
       | _ \<Rightarrow> True))"

fun fence_discipline :: "gpu_view \<Rightarrow> (vk_call \<times> VkResult option) list \<Rightarrow> bool" where
  "fence_discipline g [] = True"
| "fence_discipline g (e # es) = (allowed g e \<and> fence_discipline (observe g e) es)"

text \<open>Every successful wait on a fence in the log is followed at once by the reset of that
  fence.\<close>

fun reset_follows_wait :: "(vk_call \<times> VkResult option) list \<Rightarrow> bool" where
  "reset_follows_wait [] = True"
| "reset_follows_wait [e] =
     (case fst e of vkWaitForFences device fence \<Rightarrow> snd e \<noteq> Some VK_SUCCESS | _ \<Rightarrow> True)"
| "reset_follows_wait (e # e' # es) =
     ((case fst e of
         vkWaitForFences device fence \<Rightarrow>
           snd e = Some VK_SUCCESS \<longrightarrow> fst e' = vkResetFences device fence
       | _ \<Rightarrow> True) \<and>
      reset_follows_wait (e' # es))"

text \<open>The view after the constructor: it waits for the queue to be idle after its only
  submission, and creates the submit fences signalled and the acquire fences unsignalled.\<close>

definition gpu_view_after_constructor :: "VkRenderer \<Rightarrow> gpu_view" where
  "gpu_view_after_constructor r = \<lparr>in_flight = [], signalled = mFencesForSubmit r\<rparr>"

subsection \<open>How a statement ended\<close>

definition returned :: "result \<Rightarrow> bool" where
  "returned x = (case x of Ok w \<Rightarrow> True | _ \<Rightarrow> False)"

definition aborted :: "result \<Rightarrow> bool" where
  "aborted x = (case x of Abort w \<Rightarrow> True | _ \<Rightarrow> False)"

definition written :: "world \<Rightarrow> result \<Rightarrow> string list" where
  \<comment> \<open>the lines that a statement started in \<open>w\<close> added to \<open>aout\<close>\<close>
  "written w x =
     (case x of Ok w' \<Rightarrow> drop (length (aout w)) (aout w')
      | Abort w' \<Rightarrow> drop (length (aout w)) (aout w') | Undefined \<Rightarrow> [])"

definition logged :: "world \<Rightarrow> result \<Rightarrow> (vk_call \<times> VkResult option) list" where
  \<comment> \<open>the calls that a statement started in \<open>w\<close> added to the log\<close>
  "logged w x =
     (case x of Ok w' \<Rightarrow> new_calls w w' | Abort w' \<Rightarrow> new_calls w w' | Undefined \<Rightarrow> [])"

subsection \<open>Positions that no frame writes\<close>

text \<open>Two objects agree on the positions that \<open>render\<close> never writes.\<close>

definition same_untouched :: "VkRenderer \<Rightarrow> VkRenderer \<Rightarrow> bool" where
  "same_untouched r r' \<longleftrightarrow>
     length (mUniformData r') = length (mUniformData r) \<and>
     (\<forall>j<length (mUniformData r). \<forall>k<8. k \<noteq> 0 \<and> k \<noteq> 4 \<longrightarrow>
        position (mUniformData r' ! j) ! k = position (mUniformData r ! j) ! k)"

subsection \<open>What the constructor looks for\<close>

text \<open>The tests of the two search loops, and what is taken for granted about a count and
  the vector it was enumerated into: the vector holds at least \<open>n\<close> elements, and no more
  than \<open>0x7FFFFFFF\<close>, the value of the sentinel.\<close>

definition wanted_format :: "VkSurfaceFormatKHR \<Rightarrow> bool" where
  "wanted_format surfaceFormat \<longleftrightarrow> format surfaceFormat = VK_FORMAT_R8G8B8A8_UNORM"

definition wanted_present_mode :: "VkPresentModeKHR \<Rightarrow> bool" where
  "wanted_present_mode presentMode \<longleftrightarrow> presentMode = VK_PRESENT_MODE_FIFO_KHR"

definition enumerated :: "32 word \<Rightarrow> 'a list \<Rightarrow> bool" where
  "enumerated n xs \<longleftrightarrow> unat n \<le> length xs \<and> length xs \<le> 2147483647"

subsection \<open>Submissions in flight along a log\<close>

text \<open>The view after a log, and: at no moment of a log are two submissions of one command
  buffer in flight.\<close>

definition gpu_view_after :: "gpu_view \<Rightarrow> (vk_call \<times> VkResult option) list \<Rightarrow> gpu_view" where
  "gpu_view_after g es = foldl observe g es"

fun at_most_one_in_flight :: "gpu_view \<Rightarrow> (vk_call \<times> VkResult option) list \<Rightarrow> bool" where
  "at_most_one_in_flight g [] = distinct (map fst (in_flight g))"
| "at_most_one_in_flight g (e # es) =
     (distinct (map fst (in_flight g)) \<and> at_most_one_in_flight (observe g e) es)"

text \<open>Every submission in flight is that of a slot: the command buffer of the slot with the
  submit fence of the same slot.\<close>

definition in_flight_of_slots :: "VkRenderer \<Rightarrow> gpu_view \<Rightarrow> bool" where
  "in_flight_of_slots r g \<longleftrightarrow>
     list_all (\<lambda>p. p \<in> set (zip (mCommandBuffers r) (mFencesForSubmit r))) (in_flight g)"

section \<open>Example inputs\<close>

definition example_memory_properties :: VkPhysicalDeviceMemoryProperties where
  "example_memory_properties =
     \<lparr>memoryTypeCount = 3,
      memoryTypes = [\<lparr>propertyFlags = 1, heapIndex = 0\<rparr>, \<lparr>propertyFlags = 6, heapIndex = 1\<rparr>,
                     \<lparr>propertyFlags = 7, heapIndex = 1\<rparr>] @ replicate 29 \<lparr>propertyFlags = 0, heapIndex = 0\<rparr>\<rparr>"

definition example_memory_requirements :: VkMemoryRequirements where
  "example_memory_requirements = \<lparr>size' = 36, alignment = 4, memoryTypeBits = 5\<rparr>"

definition example_renderer :: VkRenderer where
  "example_renderer =
     \<lparr>mInstance = 1, mDevice = 2, mQueue = 3, mSurface = 4, mSwapchain = 5,
      mSwapchainImages = [10, 11],
      mSwapchainImageExtent = \<lparr>width = 1080, height = 2400\<rparr>,
      mCommandPool = 6, mCommandBuffers = [20, 21],
      mFencesForSubmit = [30, 31], mFencesForAcquire = [40, 41], mSemaphores = [50, 51],
      mSwapchainImageViews = [60, 61], mRenderPass = 7, mFramebuffers = [70, 71],
      mVertexShaderModule = 8, mFragmentShaderModule = 9, mDescriptorSetLayout = 12,
      mPipelineLayout = 13, mPipeline = 14, mVertexBuffer = 15, mVertexMemory = 16,
      mUniformBuffers = [80, 81], mUniformMemories = [90, 91],
      mUniformData = [Uniform_memset_0, Uniform_memset_0],
      mDescriptorPool = 17, mDescriptorSets = [100, 101], mTexture = 18, mImage = 19,
      mMemory = 22, mImageView = 23, mSampler = 24, mFrameIndex = 0\<rparr>"

definition example_world :: world where
  "example_world = \<lparr>renderer = example_renderer, calls = [], aout = []\<rparr>"

definition all_success :: "32 word \<Rightarrow> render_results" where
  "all_success img =
     \<lparr>submit_fence_wait = VK_SUCCESS, submit_fence_reset = VK_SUCCESS, acquire = VK_SUCCESS,
      acquired_swapchainImageIndex = Some img, acquire_fence_wait = VK_SUCCESS,
      acquire_fence_reset = VK_SUCCESS, command_buffer_reset = VK_SUCCESS,
      command_buffer_begin = VK_SUCCESS, command_buffer_end = VK_SUCCESS,
      queue_submit = VK_SUCCESS, queue_present = VK_SUCCESS\<rparr>"

text \<open>Results of one frame in which a single call fails.\<close>

definition wait_fails :: render_results where
  "wait_fails = (all_success 1)\<lparr>submit_fence_wait := VK_ERROR_DEVICE_LOST\<rparr>"

definition command_buffer_reset_fails :: render_results where
  "command_buffer_reset_fails =
     (all_success 1)\<lparr>command_buffer_reset := VK_ERROR_OUT_OF_DEVICE_MEMORY\<rparr>"

definition submit_fails :: render_results where
  "submit_fails = (all_success 1)\<lparr>queue_submit := VK_ERROR_DEVICE_LOST\<rparr>"

definition example_surfaceFormats :: "VkSurfaceFormatKHR list" where
  "example_surfaceFormats =
     [\<lparr>format = VK_FORMAT_other 44, colorSpace = 0\<rparr>,
      \<lparr>format = VK_FORMAT_R8G8B8A8_UNORM, colorSpace = 0\<rparr>,
      \<lparr>format = VK_FORMAT_R8G8B8A8_UNORM, colorSpace = 1000104001\<rparr>]"

definition example_presentModes :: "VkPresentModeKHR list" where
  "example_presentModes =
     [VK_PRESENT_MODE_other 1, VK_PRESENT_MODE_FIFO_KHR, VK_PRESENT_MODE_other 3]"

definition no_wanted_surfaceFormats :: "VkSurfaceFormatKHR list" where
  "no_wanted_surfaceFormats =
     [\<lparr>format = VK_FORMAT_other 44, colorSpace = 0\<rparr>,
      \<lparr>format = VK_FORMAT_other 43, colorSpace = 0\<rparr>]"

section \<open>Memory-type lookup\<close>

text \<open>
  The loop started at index \<open>i\<close> finds the lowest matching index from \<open>i\<close> on, and fails
  exactly when there is none.
\<close>

lemma vkGetMemoryTypeIndex_from_scan:
  assumes "memory_table_ok p" and "i \<le> unat (memoryTypeCount p)"
  shows "vkGetMemoryTypeIndex_from i p r f =
           (if \<exists>j. i \<le> j \<and> memory_type_matches p r f j
            then Some (VK_SUCCESS, word_of_nat (LEAST j. i \<le> j \<and> memory_type_matches p r f j))
            else Some (VK_ERROR_UNKNOWN, 0xFFFFFFFF))"
  using assms
proof (induction i p r f rule: vkGetMemoryTypeIndex_from.induct)
  case (1 i p r f)
  show ?case
  proof (cases "i = unat (memoryTypeCount p)")
    case True
    then have "\<not> (\<exists>j. i \<le> j \<and> memory_type_matches p r f j)"
      by (auto simp add: memory_type_matches_def)
    with True show ?thesis
      by (subst vkGetMemoryTypeIndex_from.simps) simp
  next
    case False
    with "1.prems" have lt: "i < unat (memoryTypeCount p)" by simp
    with "1.prems" have guard: "\<not> (32 \<le> i \<or> length (memoryTypes p) \<le> i)"
      by (auto simp add: memory_table_ok_def)
    show ?thesis
    proof (cases "memory_type_matches p r f i")
      case True
      then have "(LEAST j. i \<le> j \<and> memory_type_matches p r f j) = i"
        by (intro Least_equality) auto
      moreover have "\<exists>j. i \<le> j \<and> memory_type_matches p r f j"
        using True by auto
      ultimately show ?thesis
        using True False guard
        by (subst vkGetMemoryTypeIndex_from.simps)
           (simp add: memory_type_matches_def and_exp_eq_0_iff_not_bit)
    next
      case nomatch: False
      have step: "(i \<le> j \<and> memory_type_matches p r f j) \<longleftrightarrow>
                  (i + 1 \<le> j \<and> memory_type_matches p r f j)" for j
        using nomatch by (cases "j = i") auto
      have rec: "vkGetMemoryTypeIndex_from i p r f = vkGetMemoryTypeIndex_from (i + 1) p r f"
        using nomatch False guard lt
        by (subst vkGetMemoryTypeIndex_from.simps)
           (auto simp add: memory_type_matches_def and_exp_eq_0_iff_not_bit)
      have ih: "vkGetMemoryTypeIndex_from (i + 1) p r f =
           (if \<exists>j. i + 1 \<le> j \<and> memory_type_matches p r f j
            then Some (VK_SUCCESS, word_of_nat (LEAST j. i + 1 \<le> j \<and> memory_type_matches p r f j))
            else Some (VK_ERROR_UNKNOWN, 0xFFFFFFFF))"
      proof (cases "memoryTypeBits r AND push_bit i 1 \<noteq> 0")
        case True
        then have "propertyFlags (memoryTypes p ! i) AND f \<noteq> f"
          using nomatch lt by (auto simp add: memory_type_matches_def and_exp_eq_0_iff_not_bit)
        with True False guard lt "1.prems" show ?thesis
          by (intro "1.IH"(1)) auto
      next
        case nobit: False
        with False guard lt "1.prems" show ?thesis
          by (intro "1.IH"(2)) auto
      qed
      show ?thesis
        unfolding rec ih by (simp only: step)
    qed
  qed
qed


text \<open>
  C4. For every memory-type table (a count of at most 32 entries that the array holds), all
  requirements and all desired flags, \<open>vkGetMemoryTypeIndex\<close> returns; when it returns
  \<open>VK_SUCCESS\<close> the stored index is the lowest index of the table whose bit is set in
  \<open>memoryTypeBits\<close> and whose property flags contain the desired flags; it returns a failure
  (\<open>VK_ERROR_UNKNOWN\<close>, with \<open>UINT32_MAX\<close> stored) if and only if no index of the table
  satisfies both conditions.
\<close>

theorem vkGetMemoryTypeIndex_lowest_match:
  assumes "memory_table_ok p"
  shows "\<exists>res idx. vkGetMemoryTypeIndex p r f = Some (res, idx) \<and>
           (res = VK_SUCCESS \<longrightarrow>
              memory_type_matches p r f (unat idx) \<and>
              (\<forall>j<unat idx. \<not> memory_type_matches p r f j)) \<and>
           (res \<noteq> VK_SUCCESS \<longleftrightarrow> (\<forall>i. \<not> memory_type_matches p r f i)) \<and>
           (res \<noteq> VK_SUCCESS \<longrightarrow> res = VK_ERROR_UNKNOWN \<and> idx = 0xFFFFFFFF)"
proof (cases "\<exists>j. memory_type_matches p r f j")
  case True
  define k where "k = (LEAST j. memory_type_matches p r f j)"
  have k: "memory_type_matches p r f k"
    unfolding k_def using True by (auto intro: LeastI)
  have least: "\<not> memory_type_matches p r f j" if "j < k" for j
    using that not_less_Least unfolding k_def by blast
  have "k < unat (memoryTypeCount p)"
    using k by (simp add: memory_type_matches_def)
  with assms have "k < 32"
    by (simp add: memory_table_ok_def)
  then have unat_k: "unat (word_of_nat k :: 32 word) = k"
    by (simp add: unat_of_nat)
  have "vkGetMemoryTypeIndex p r f = Some (VK_SUCCESS, word_of_nat k)"
    using vkGetMemoryTypeIndex_from_scan [OF assms, of 0 r f] True
    by (simp add: vkGetMemoryTypeIndex_def k_def)
  with k least unat_k True show ?thesis
    by auto
next
  case False
  then have "vkGetMemoryTypeIndex p r f = Some (VK_ERROR_UNKNOWN, 0xFFFFFFFF)"
    using vkGetMemoryTypeIndex_from_scan [OF assms, of 0 r f]
    by (simp add: vkGetMemoryTypeIndex_def)
  with False show ?thesis
    by auto
qed

theorem vkGetMemoryTypeIndex_lowest_match_witness:
  "memory_table_ok example_memory_properties \<and>
   vkGetMemoryTypeIndex example_memory_properties example_memory_requirements 6 = Some (VK_SUCCESS, 2) \<and>
   memory_type_matches example_memory_properties example_memory_requirements 6 2 \<and>
   \<not> memory_type_matches example_memory_properties example_memory_requirements 6 0 \<and>
   \<not> memory_type_matches example_memory_properties example_memory_requirements 6 1"
proof -
  have ok: "memory_table_ok example_memory_properties"
    by (simp add: memory_table_ok_def example_memory_properties_def)
  have run: "vkGetMemoryTypeIndex example_memory_properties example_memory_requirements 6
               = Some (VK_SUCCESS, 2)"
    by (simp add: vkGetMemoryTypeIndex_def example_memory_properties_def
          example_memory_requirements_def vkGetMemoryTypeIndex_from.simps)
  from vkGetMemoryTypeIndex_lowest_match [OF ok, of example_memory_requirements 6] run
  have "memory_type_matches example_memory_properties example_memory_requirements 6 2 \<and>
        (\<forall>j<2. \<not> memory_type_matches example_memory_properties example_memory_requirements 6 j)"
    by simp
  with ok run show ?thesis
    by (simp add: numeral_2_eq_2 less_Suc_eq)
qed

section \<open>The render call\<close>

text \<open>How \<open>exec\<close> runs each kind of statement.\<close>

lemma exec_VK_CHECK_ERROR:
  "exec (VK_CHECK_ERROR ndebug txt (vk c res) # ss) w =
     (if \<not> ndebug \<and> res \<noteq> VK_SUCCESS
      then Abort (w\<lparr>calls := calls w @ [(c, Some res)],
                     aout := aout w @ [check_message (txt, res)]\<rparr>)
      else exec ss (w\<lparr>calls := calls w @ [(c, Some res)]\<rparr>))"
  by (simp add: VK_CHECK_ERROR_def vk_def discarded_def check_message_def)

lemma exec_vk_void:
  "exec (vk_void c # ss) w = exec ss (w\<lparr>calls := calls w @ [(c, None)]\<rparr>)"
  by (simp add: vk_void_def)

lemma exec_discarded:
  "exec (discarded (vk c res) # ss) w = exec ss (w\<lparr>calls := calls w @ [(c, Some res)]\<rparr>)"
  by (simp add: vk_def discarded_def)

lemma exec_update_uniform:
  "exec (update_uniform i # ss) w =
     exec ss (w\<lparr>renderer := (renderer w)\<lparr>mUniformData := (mUniformData (renderer w))
                   [i := (mUniformData (renderer w) ! i)
                      \<lparr>position := update_position_from 0 (position (mUniformData (renderer w) ! i)),
                       ratio := float_div (float_of_uint32 (height (mSwapchainImageExtent (renderer w))))
                                 (float_of_uint32 (width (mSwapchainImageExtent (renderer w))))\<rparr>]\<rparr>,
                calls := calls w @ [(StoreUniform i, None)]\<rparr>)"
  by (simp add: update_uniform_def Let_def)

lemma exec_advance_frame_index:
  "exec [advance_frame_index] w =
     (if length (mSwapchainImages (renderer w)) = 0 then Undefined
      else Ok (w\<lparr>renderer := (renderer w)\<lparr>mFrameIndex := (mFrameIndex (renderer w) + 1) mod length (mSwapchainImages (renderer w))\<rparr>,
                 calls := calls w @ [(StoreFrameIndex ((mFrameIndex (renderer w) + 1) mod length (mSwapchainImages (renderer w))), None)]\<rparr>))"
  by (simp add: advance_frame_index_def Let_def)

lemma exec_last: "exec [s] w = s w"
  by (cases "s w") simp_all

lemmas exec_steps = exec_VK_CHECK_ERROR exec_vk_void exec_discarded exec_update_uniform exec_advance_frame_index

lemmas frame_steps_defs = frame_steps_def step1_wait_submit_def step2_update_uniform_def
  step3_acquire_def step4_wait_acquire_def step5_record_def step6_submit_def step7_present_def
  step8_advance_def


lemma render_acquired_Ok:
  assumes "render_acquired ndebug env r i w = Ok w'"
  shows "acquired_swapchainImageIndex env = Some (image_of env) \<and>
           unat (image_of env) < length (mFramebuffers r) \<and> 0 < length (mSwapchainImages (renderer w)) \<and>
           w' = w\<lparr>renderer := (renderer w)
                    \<lparr>mFrameIndex := (mFrameIndex (renderer w) + 1) mod length (mSwapchainImages (renderer w))\<rparr>,
                  calls := calls w @ step4_wait_acquire (r\<lparr>mFrameIndex := i\<rparr>) env @
                     step5_record (r\<lparr>mFrameIndex := i\<rparr>) env (image_of env) @ step6_submit (r\<lparr>mFrameIndex := i\<rparr>) env @
                     step7_present (r\<lparr>mFrameIndex := i\<rparr>) env (image_of env) @
                     step8_advance (renderer w)\<rparr>"
  using assms
  by (simp add: render_acquired_def Let_def exec_steps frame_steps_defs image_of_def
      del: exec.simps split: option.splits if_splits)

lemma render_acquired_Ok_results:
  assumes "render_acquired ndebug env r i w = Ok w'" and "\<not> ndebug"
  shows "first_failure (drop 3 (checked_calls env)) = None"
  using assms
  by (simp add: render_acquired_def Let_def exec_steps first_failure_def checked_calls_def
      del: exec.simps split: option.splits if_splits)

lemma render_acquired_Abort:
  assumes "render_acquired ndebug env r i w = Abort w'"
  shows "\<not> ndebug \<and> acquired_swapchainImageIndex env = Some (image_of env) \<and>
         unat (image_of env) < length (mFramebuffers r) \<and>
         (\<exists>c. first_failure (drop 3 (checked_calls env)) = Some c \<and>
            w' = w\<lparr>calls := calls w @ log_until_abort (step4_wait_acquire (r\<lparr>mFrameIndex := i\<rparr>) env @
                     step5_record (r\<lparr>mFrameIndex := i\<rparr>) env (image_of env) @ step6_submit (r\<lparr>mFrameIndex := i\<rparr>) env @
                     step7_present (r\<lparr>mFrameIndex := i\<rparr>) env (image_of env) @ step8_advance (renderer w)),
                   aout := aout w @ [check_message c]\<rparr>)"
  using assms
  apply (simp add: render_acquired_def Let_def exec_steps 
      del: exec.simps split: option.splits if_splits)
  apply (simp_all add: frame_steps_defs first_failure_def checked_calls_def image_of_def checked_def Let_def)
  done

lemma render_acquired_defined:
  assumes "acquired_swapchainImageIndex env = Some img" "unat img < length (mFramebuffers r)"
    "0 < length (mSwapchainImages (renderer w))"
  shows "render_acquired ndebug env r i w \<noteq> Undefined"
  using assms
  by (simp add: render_acquired_def Let_def exec_steps del: exec.simps)


lemma render_unfold:
  "render ndebug env w =
     (if \<not> slot_in_range (renderer w) then Undefined
      else if \<not> ndebug \<and> submit_fence_wait env \<noteq> VK_SUCCESS then
        Abort (w\<lparr>calls := calls w @ take 1 (step1_wait_submit (renderer w) env),
                 aout := aout w @ [check_message (text_wait_submit, submit_fence_wait env)]\<rparr>)
      else if \<not> ndebug \<and> submit_fence_reset env \<noteq> VK_SUCCESS then
        Abort (w\<lparr>calls := calls w @ step1_wait_submit (renderer w) env,
                 aout := aout w @ [check_message (text_reset_submit, submit_fence_reset env)]\<rparr>)
      else if \<not> ndebug \<and> acquire env \<noteq> VK_SUCCESS then
        Abort ((uniform_stored w)
                \<lparr>calls := calls w @ step1_wait_submit (renderer w) env @
                   step2_update_uniform (renderer w) @ step3_acquire (renderer w) env,
                 aout := aout w @ [check_message (text_acquire, acquire env)]\<rparr>)
      else render_acquired ndebug env (renderer w) (mFrameIndex (renderer w))
             ((uniform_stored w)
                \<lparr>calls := calls w @ step1_wait_submit (renderer w) env @
                   step2_update_uniform (renderer w) @ step3_acquire (renderer w) env\<rparr>))"
  by (simp add: render_def Let_def exec_steps exec_last frame_steps_defs slot_in_range_def
        uniform_stored_def uniform_written_def not_le
      del: exec.simps)

lemma record_self [simp]: "r\<lparr>mFrameIndex := mFrameIndex r\<rparr> = r"
  by simp

lemma render_Ok:
  assumes "render ndebug env w = Ok w'"
  shows "slot_in_range (renderer w) \<and>
         acquired_swapchainImageIndex env = Some (image_of env) \<and>
         unat (image_of env) < length (mFramebuffers (renderer w)) \<and>
         0 < length (mSwapchainImages (renderer w)) \<and>
         w' = w\<lparr>renderer := (renderer w)
                  \<lparr>mUniformData := (mUniformData (renderer w))
                      [mFrameIndex (renderer w) := uniform_written (renderer w)],
                   mFrameIndex := (mFrameIndex (renderer w) + 1) mod length (mSwapchainImages (renderer w))\<rparr>,
                calls := calls w @ frame_steps (renderer w) env (image_of env)\<rparr>"
proof -
  let ?w1 = "(uniform_stored w)
                \<lparr>calls := calls w @ step1_wait_submit (renderer w) env @
                   step2_update_uniform (renderer w) @ step3_acquire (renderer w) env\<rparr>"
  from assms have range: "slot_in_range (renderer w)"
    and rest: "render_acquired ndebug env (renderer w) (mFrameIndex (renderer w)) ?w1 = Ok w'"
    by (simp_all add: render_unfold split: if_splits)
  from render_acquired_Ok [OF rest] range show ?thesis
    by (simp add: frame_steps_def uniform_stored_def step8_advance_def)
qed

lemma render_Ok_results:
  assumes "render ndebug env w = Ok w'" and "\<not> ndebug"
  shows "first_failure (checked_calls env) = None"
proof -
  let ?w1 = "(uniform_stored w)
                \<lparr>calls := calls w @ step1_wait_submit (renderer w) env @
                   step2_update_uniform (renderer w) @ step3_acquire (renderer w) env\<rparr>"
  from assms have first: "submit_fence_wait env = VK_SUCCESS" "submit_fence_reset env = VK_SUCCESS"
      "acquire env = VK_SUCCESS"
    and rest: "render_acquired ndebug env (renderer w) (mFrameIndex (renderer w)) ?w1 = Ok w'"
    by (simp_all add: render_unfold split: if_splits)
  from render_acquired_Ok_results [OF rest assms(2)] first show ?thesis
    by (simp add: first_failure_def checked_calls_def)
qed

lemma render_Abort:
  assumes "render ndebug env w = Abort w'"
  shows "\<not> ndebug \<and> slot_in_range (renderer w) \<and>
         (\<exists>c. first_failure (checked_calls env) = Some c \<and>
            calls w' = calls w @ log_until_abort (frame_steps (renderer w) env (image_of env)) \<and>
            aout w' = aout w @ [check_message c] \<and>
            (renderer w' = renderer w \<or> renderer w' = renderer (uniform_stored w)))"
proof -
  let ?w1 = "(uniform_stored w)
                \<lparr>calls := calls w @ step1_wait_submit (renderer w) env @
                   step2_update_uniform (renderer w) @ step3_acquire (renderer w) env\<rparr>"
  from assms have range: "slot_in_range (renderer w)"
    by (simp add: render_unfold split: if_splits)
  consider (a) "\<not> ndebug" "submit_fence_wait env \<noteq> VK_SUCCESS"
    | (b) "\<not> ndebug" "submit_fence_wait env = VK_SUCCESS" "submit_fence_reset env \<noteq> VK_SUCCESS"
    | (c) "\<not> ndebug" "submit_fence_wait env = VK_SUCCESS" "submit_fence_reset env = VK_SUCCESS"
          "acquire env \<noteq> VK_SUCCESS"
    | (d) "ndebug \<or> submit_fence_wait env = VK_SUCCESS \<and> submit_fence_reset env = VK_SUCCESS \<and>
          acquire env = VK_SUCCESS"
    by blast
  then show ?thesis
  proof cases
    case a
    with assms range show ?thesis
      by (auto simp add: render_unfold frame_steps_defs first_failure_def checked_calls_def
            checked_def)
  next
    case b
    with assms range show ?thesis
      by (auto simp add: render_unfold frame_steps_defs first_failure_def checked_calls_def
            checked_def)
  next
    case c
    with assms range show ?thesis
      by (auto simp add: render_unfold frame_steps_defs first_failure_def checked_calls_def
            checked_def uniform_stored_def)
  next
    case d
    with assms range
    have rest: "render_acquired ndebug env (renderer w) (mFrameIndex (renderer w)) ?w1 = Abort w'"
      by (auto simp add: render_unfold)
    from render_acquired_Abort [OF rest] obtain c where
      nd: "\<not> ndebug" and c: "first_failure (drop 3 (checked_calls env)) = Some c"
      and w': "w' = ?w1\<lparr>calls := calls ?w1 @ log_until_abort
                 (step4_wait_acquire (renderer w) env @ step5_record (renderer w) env (image_of env) @
                  step6_submit (renderer w) env @ step7_present (renderer w) env (image_of env) @
                  step8_advance (renderer ?w1)),
                aout := aout ?w1 @ [check_message c]\<rparr>"
      by auto
    from nd d have first: "submit_fence_wait env = VK_SUCCESS" "submit_fence_reset env = VK_SUCCESS"
      "acquire env = VK_SUCCESS" by auto
    from c first have "first_failure (checked_calls env) = Some c"
      by (simp add: first_failure_def checked_calls_def)
    moreover have "calls w' = calls w @ log_until_abort (frame_steps (renderer w) env (image_of env))"
      unfolding w' using first
      by (simp add: frame_steps_def step1_wait_submit_def step2_update_uniform_def
            step3_acquire_def checked_def step8_advance_def uniform_stored_def)
    moreover have "aout w' = aout w @ [check_message c]"
      unfolding w' by (simp add: uniform_stored_def)
    moreover have "renderer w' = renderer (uniform_stored w)"
      unfolding w' by simp
    ultimately show ?thesis using nd range by blast
  qed
qed

lemma render_defined:
  assumes "slot_in_range (renderer w)" "acquired_swapchainImageIndex env = Some img"
    "unat img < length (mFramebuffers (renderer w))" "0 < length (mSwapchainImages (renderer w))"
  shows "render ndebug env w \<noteq> Undefined"
proof -
  have "render_acquired ndebug env (renderer w) (mFrameIndex (renderer w))
          ((uniform_stored w)
                \<lparr>calls := calls w @ step1_wait_submit (renderer w) env @
                   step2_update_uniform (renderer w) @ step3_acquire (renderer w) env\<rparr>) \<noteq> Undefined"
    using assms(4) by (intro render_acquired_defined [OF assms(2,3)]) (simp add: uniform_stored_def)
  with assms(1) show ?thesis
    by (cases ndebug) (auto simp add: render_unfold)
qed

lemma log_until_abort_take: "\<exists>k\<le>length es. log_until_abort es = take k es"
proof (induction es)
  case Nil
  show ?case by simp
next
  case (Cons e es)
  then obtain k where k: "k \<le> length es" "log_until_abort es = take k es" by blast
  show ?case
  proof (cases "checked (fst e) \<and> snd e \<noteq> Some VK_SUCCESS")
    case True
    then have "log_until_abort (e # es) = take 1 (e # es)" by simp
    then show ?thesis by (intro exI [of _ 1]) simp
  next
    case False
    with k have "log_until_abort (e # es) = take (Suc k) (e # es)" by auto
    with k(1) show ?thesis by (intro exI [of _ "Suc k"]) simp
  qed
qed

lemma new_calls_append [simp]: "calls w' = calls w @ es \<Longrightarrow> new_calls w w' = es"
  by (simp add: new_calls_def)


lemma example_slot_in_range: "slot_in_range (renderer example_world)"
  by (simp add: slot_in_range_def example_world_def example_renderer_def)

lemma example_defined: "unat img < 2 \<Longrightarrow> render ndebug (all_success img) example_world \<noteq> Undefined"
  by (rule render_defined [OF example_slot_in_range, of _ img])
     (simp_all add: all_success_def example_world_def example_renderer_def)

lemma all_success_no_failure: "first_failure (checked_calls (all_success img)) = None"
  by (simp add: first_failure_def checked_calls_def all_success_def)


section \<open>Frames in a row\<close>

lemma update_position_from_0:
  "update_position_from 0 pos =
     pos[0 := position_updated (pos ! 0), 4 := position_updated (pos ! 4)]"
  by (simp add: update_position_from.simps)

lemma uniform_written_position:
  "position (uniform_written r) =
     (position (mUniformData r ! mFrameIndex r))
       [0 := position_updated (position (mUniformData r ! mFrameIndex r) ! 0),
        4 := position_updated (position (mUniformData r ! mFrameIndex r) ! 4)]"
  by (simp add: uniform_written_def update_position_from_0)

lemma slots_ok_slot_in_range: "slots_ok r \<Longrightarrow> slot_in_range r"
  by (simp add: slots_ok_def slot_in_range_def Let_def)

lemma slots_ok_uniform_stored:
  assumes "slots_ok (renderer w)"
  shows "slots_ok (renderer (uniform_stored w))"
proof -
  let ?r = "renderer w"
  from assms have all8: "list_all (\<lambda>u. length (position u) = 8) (mUniformData ?r)"
    and i: "mFrameIndex ?r < length (mUniformData ?r)"
    by (simp_all add: slots_ok_def Let_def)
  from all8 i have "length (position (mUniformData ?r ! mFrameIndex ?r)) = 8"
    by (simp add: list_all_length)
  then have "length (position (uniform_written ?r)) = 8"
    by (simp add: uniform_written_position)
  with all8 have "list_all (\<lambda>u. length (position u) = 8)
                    ((mUniformData ?r)[mFrameIndex ?r := uniform_written ?r])"
    using set_update_subset_insert [of "mUniformData ?r" "mFrameIndex ?r" "uniform_written ?r"]
    by (auto simp add: list_all_iff)
  with assms show ?thesis
    by (simp add: slots_ok_def uniform_stored_def Let_def)
qed

lemma render_Ok_renderer:
  assumes "render ndebug env w = Ok w'"
  shows "renderer w' = (renderer (uniform_stored w))
           \<lparr>mFrameIndex := (mFrameIndex (renderer w) + 1) mod length (mSwapchainImages (renderer w))\<rparr>"
  using render_Ok [OF assms] by (simp add: uniform_stored_def)

lemma render_Ok_slots_ok:
  assumes "render ndebug env w = Ok w'" and "slots_ok (renderer w)"
  shows "slots_ok (renderer w')"
proof -
  from slots_ok_uniform_stored [OF assms(2)]
  have "slots_ok (renderer (uniform_stored w))" .
  moreover have "length (mSwapchainImages (renderer (uniform_stored w)))
                   = length (mSwapchainImages (renderer w))"
    by (simp add: uniform_stored_def)
  ultimately show ?thesis
    unfolding render_Ok_renderer [OF assms(1)]
    by (simp add: slots_ok_def Let_def)
qed

lemma render_Abort_slots_ok:
  assumes "render ndebug env w = Abort w'" and "slots_ok (renderer w)"
  shows "slots_ok (renderer w')"
  using render_Abort [OF assms(1)] assms(2) slots_ok_uniform_stored [OF assms(2)]
  by auto

lemma render_Abort_frame_index:
  assumes "render ndebug env w = Abort w'"
  shows "mFrameIndex (renderer w') = mFrameIndex (renderer w)"
  using render_Abort [OF assms] by (auto simp add: uniform_stored_def)

lemma render_images_unchanged:
  assumes "render ndebug env w = Ok w' \<or> render ndebug env w = Abort w'"
  shows "mSwapchainImages (renderer w') = mSwapchainImages (renderer w)"
  using assms render_Ok_renderer [of ndebug env w w'] render_Abort [of ndebug env w w']
  by (auto simp add: uniform_stored_def)

lemma slots_used_frame_steps [simp]:
  "slots_used (frame_steps r env img) = [mFrameIndex r]"
  by (simp add: frame_steps_def step1_wait_submit_def step2_update_uniform_def
        step3_acquire_def step4_wait_acquire_def step5_record_def step6_submit_def
        step7_present_def step8_advance_def Let_def)

lemma slots_used_append [simp]: "slots_used (xs @ ys) = slots_used xs @ slots_used ys"
  by (induction xs rule: slots_used.induct) (simp_all split: vk_call.splits)

lemma render_frames_calls:
  assumes "render_frames ndebug envs w = Ok w' \<or> render_frames ndebug envs w = Abort w'"
  shows "\<exists>es. calls w' = calls w @ es"
  using assms
proof (induction envs arbitrary: w)
  case Nil
  then show ?case by simp
next
  case (Cons env envs)
  show ?case
  proof (cases "render ndebug env w")
    case (Ok w1)
    from render_Ok [OF Ok] obtain es1 where es1: "calls w1 = calls w @ es1" by simp
    from Cons.prems Ok
    have "render_frames ndebug envs w1 = Ok w' \<or> render_frames ndebug envs w1 = Abort w'"
      by simp
    from Cons.IH [OF this] es1 show ?thesis by auto
  next
    case (Abort w1)
    with Cons.prems have "w' = w1" by simp
    with render_Abort [OF Abort] show ?thesis by auto
  next
    case Undefined
    with Cons.prems show ?thesis by simp
  qed
qed

lemma new_calls_trans:
  assumes "calls w1 = calls w @ es1" and "calls w' = calls w1 @ es2"
  shows "new_calls w w' = es1 @ new_calls w1 w'"
  using assms by (simp add: new_calls_def)

lemma render_frames_Ok:
  assumes "render_frames ndebug envs w = Ok w'" and "slots_ok (renderer w)"
  shows "slots_ok (renderer w') \<and>
         mSwapchainImages (renderer w') = mSwapchainImages (renderer w) \<and>
         mFrameIndex (renderer w') =
           (mFrameIndex (renderer w) + length envs) mod length (mSwapchainImages (renderer w)) \<and>
         slots_used (new_calls w w') =
           map (\<lambda>k. (mFrameIndex (renderer w) + k) mod length (mSwapchainImages (renderer w)))
             [0..<length envs]"
  using assms
proof (induction envs arbitrary: w)
  case Nil
  then show ?case by (simp add: new_calls_def slots_ok_def Let_def)
next
  case (Cons env envs)
  let ?n = "length (mSwapchainImages (renderer w))"
  let ?i = "mFrameIndex (renderer w)"
  from Cons.prems(1) obtain w1 where w1: "render ndebug env w = Ok w1"
    and rest: "render_frames ndebug envs w1 = Ok w'"
    by (auto split: result.splits)
  from Cons.prems(2) have i: "?i < ?n" by (simp add: slots_ok_def Let_def)
  have ok1: "slots_ok (renderer w1)" by (rule render_Ok_slots_ok [OF w1 Cons.prems(2)])
  have imgs1: "mSwapchainImages (renderer w1) = mSwapchainImages (renderer w)"
    using render_images_unchanged [of ndebug env w w1] w1 by simp
  have idx1: "mFrameIndex (renderer w1) = (?i + 1) mod ?n"
    using render_Ok_renderer [OF w1] by simp
  have calls1: "calls w1 = calls w @ frame_steps (renderer w) env (image_of env)"
    using render_Ok [OF w1] by simp
  from render_frames_calls [of ndebug envs w1 w'] rest obtain es2 where
    es2: "calls w' = calls w1 @ es2" by auto
  note IH = Cons.IH [OF rest ok1]
  have used: "slots_used (new_calls w w') = ?i # slots_used (new_calls w1 w')"
    using new_calls_trans [OF calls1 es2] by simp
  have shift: "map (\<lambda>k. (?i + k) mod ?n) [0..<length (env # envs)] =
               ?i # map (\<lambda>k. ((?i + 1) mod ?n + k) mod ?n) [0..<length envs]"
  proof -
    have "[0..<length (env # envs)] = 0 # map Suc [0..<length envs]"
      by (simp add: upt_conv_Cons map_Suc_upt del: upt_Suc)
    then show ?thesis
      using i by (simp add: mod_add_left_eq o_def del: upt_Suc)
  qed
  from IH show ?case
    unfolding used shift
    by (simp add: imgs1 idx1 mod_add_left_eq add.assoc)
qed

lemma render_frames_Abort_in_range:
  assumes "render_frames ndebug envs w = Abort w'" and "slots_ok (renderer w)"
  shows "slots_ok (renderer w') \<and> mSwapchainImages (renderer w') = mSwapchainImages (renderer w)"
  using assms
proof (induction envs arbitrary: w)
  case Nil
  then show ?case by simp
next
  case (Cons env envs)
  show ?case
  proof (cases "render ndebug env w")
    case (Ok w1)
    with Cons.prems have rest: "render_frames ndebug envs w1 = Abort w'" by simp
    have ok1: "slots_ok (renderer w1)" by (rule render_Ok_slots_ok [OF Ok Cons.prems(2)])
    have "mSwapchainImages (renderer w1) = mSwapchainImages (renderer w)"
      using render_images_unchanged [of ndebug env w w1] Ok by simp
    with Cons.IH [OF rest ok1] show ?thesis by simp
  next
    case (Abort w1)
    with Cons.prems have "w' = w1" by simp
    with render_Abort_slots_ok [OF Abort Cons.prems(2)]
      render_images_unchanged [of ndebug env w w1] Abort
    show ?thesis by simp
  next
    case Undefined
    with Cons.prems show ?thesis by simp
  qed
qed


lemma render_frames_succeeds:
  assumes "slots_ok (renderer w)"
    and "\<forall>env\<in>set envs. (ndebug \<or> first_failure (checked_calls env) = None) \<and>
           (\<exists>img. acquired_swapchainImageIndex env = Some img \<and>
                  unat img < length (mSwapchainImages (renderer w)))"
  shows "\<exists>w'. render_frames ndebug envs w = Ok w'"
  using assms
proof (induction envs arbitrary: w)
  case Nil
  show ?case by simp
next
  case (Cons env envs)
  from Cons.prems(2) obtain img where
    nofail: "ndebug \<or> first_failure (checked_calls env) = None"
    and img: "acquired_swapchainImageIndex env = Some img"
      "unat img < length (mSwapchainImages (renderer w))"
    by auto
  from Cons.prems(1) have len: "length (mFramebuffers (renderer w)) = length (mSwapchainImages (renderer w))"
    "0 < length (mSwapchainImages (renderer w))"
    by (simp_all add: slots_ok_def Let_def)
  have defined: "render ndebug env w \<noteq> Undefined"
    using img len by (intro render_defined [OF slots_ok_slot_in_range [OF Cons.prems(1)], of _ img]) simp_all
  have no_abort: "render ndebug env w \<noteq> Abort w1" for w1
    using render_Abort [of ndebug env w w1] nofail by auto
  from defined no_abort obtain w1 where w1: "render ndebug env w = Ok w1"
    by (cases "render ndebug env w") auto
  have ok1: "slots_ok (renderer w1)" by (rule render_Ok_slots_ok [OF w1 Cons.prems(1)])
  have imgs1: "mSwapchainImages (renderer w1) = mSwapchainImages (renderer w)"
    using render_images_unchanged [of ndebug env w w1] w1 by simp
  from Cons.prems(2) have "\<forall>env\<in>set envs. (ndebug \<or> first_failure (checked_calls env) = None) \<and>
           (\<exists>img. acquired_swapchainImageIndex env = Some img \<and>
                  unat img < length (mSwapchainImages (renderer w1)))"
    by (simp add: imgs1)
  from Cons.IH [OF ok1 this] w1 show ?case by simp
qed

lemma example_slots_ok: "slots_ok (renderer example_world)"
  by (simp add: slots_ok_def example_world_def example_renderer_def Let_def Uniform_memset_0_def)

lemma all_success_acquired [simp]: "acquired_swapchainImageIndex (all_success img) = Some img"
  by (simp add: all_success_def)

lemma last_frame_steps:
  "last (frame_steps r env img) =
     (StoreFrameIndex ((mFrameIndex r + 1) mod length (mSwapchainImages r)), None)"
  by (simp add: frame_steps_def step8_advance_def)

lemma butlast_frame_steps:
  "StoreFrameIndex n \<notin> fst ` set (butlast (frame_steps r env img))"
  by (simp add: frame_steps_def step1_wait_submit_def step2_update_uniform_def
        step3_acquire_def step4_wait_acquire_def step5_record_def step6_submit_def
        step7_present_def step8_advance_def Let_def butlast_append)

text \<open>
  C6. For a renderer as the constructor sizes it (\<open>N\<close> images, \<open>N \<ge> 1\<close>, frame index below
  \<open>N\<close>): a render call that returns sets the frame index to \<open>(frame_index + 1) mod N\<close>, and
  that store is the last thing the call does, no earlier step of it stores the index; a
  call that aborts leaves the index as it was; after any number of render calls the index
  is below \<open>N\<close> and \<open>N\<close> is unchanged; \<open>n\<close> calls that return use the slots
  \<open>i, i + 1, ...\<close> modulo \<open>N\<close> and leave the index at \<open>(i + n) mod N\<close>; in particular, from
  index 0 with \<open>N = 2\<close>, five calls use the slots 0, 1, 0, 1, 0.
\<close>

theorem frame_index_cycle:
  assumes "slots_ok (renderer w)"
  shows "(\<forall>w'. render ndebug env w = Ok w' \<longrightarrow>
            mFrameIndex (renderer w') =
              (mFrameIndex (renderer w) + 1) mod length (mSwapchainImages (renderer w)) \<and>
            last (new_calls w w') = (StoreFrameIndex (mFrameIndex (renderer w')), None) \<and>
            (\<forall>n. StoreFrameIndex n \<notin> fst ` set (butlast (new_calls w w')))) \<and>
         (\<forall>w'. render ndebug env w = Abort w' \<longrightarrow>
            mFrameIndex (renderer w') = mFrameIndex (renderer w)) \<and>
         (\<forall>w'. render_frames ndebug envs w = Ok w' \<or> render_frames ndebug envs w = Abort w' \<longrightarrow>
            mFrameIndex (renderer w') < length (mSwapchainImages (renderer w')) \<and>
            mSwapchainImages (renderer w') = mSwapchainImages (renderer w)) \<and>
         (\<forall>w'. render_frames ndebug envs w = Ok w' \<longrightarrow>
            mFrameIndex (renderer w') =
              (mFrameIndex (renderer w) + length envs) mod length (mSwapchainImages (renderer w)) \<and>
            slots_used (new_calls w w') =
              map (\<lambda>k. (mFrameIndex (renderer w) + k) mod length (mSwapchainImages (renderer w)))
                [0..<length envs]) \<and>
         (\<forall>w'. render_frames ndebug envs w = Ok w' \<and> mFrameIndex (renderer w) = 0 \<and>
               length (mSwapchainImages (renderer w)) = 2 \<and> length envs = 5 \<longrightarrow>
            slots_used (new_calls w w') = [0, 1, 0, 1, 0])"
proof (intro conjI allI impI)
  fix w' assume ok: "render ndebug env w = Ok w'"
  from render_Ok [OF ok]
  have calls: "calls w' = calls w @ frame_steps (renderer w) env (image_of env)" by simp
  show idx: "mFrameIndex (renderer w') =
          (mFrameIndex (renderer w) + 1) mod length (mSwapchainImages (renderer w))"
    using render_Ok_renderer [OF ok] by simp
  show "last (new_calls w w') = (StoreFrameIndex (mFrameIndex (renderer w')), None)"
    using calls by (simp add: last_frame_steps idx)
  show "StoreFrameIndex n \<notin> fst ` set (butlast (new_calls w w'))" for n
    using calls butlast_frame_steps [of n "renderer w" env "image_of env"] by simp
next
  fix w' assume "render ndebug env w = Abort w'"
  then show "mFrameIndex (renderer w') = mFrameIndex (renderer w)"
    by (rule render_Abort_frame_index)
next
  fix w' assume run: "render_frames ndebug envs w = Ok w' \<or> render_frames ndebug envs w = Abort w'"
  then have "slots_ok (renderer w') \<and> mSwapchainImages (renderer w') = mSwapchainImages (renderer w)"
    using render_frames_Ok [OF _ assms, of ndebug envs w']
      render_frames_Abort_in_range [OF _ assms, of ndebug envs w'] by blast
  then show "mFrameIndex (renderer w') < length (mSwapchainImages (renderer w'))"
    and "mSwapchainImages (renderer w') = mSwapchainImages (renderer w)"
    by (auto simp add: slots_ok_def Let_def)
next
  fix w' assume run: "render_frames ndebug envs w = Ok w'"
  from render_frames_Ok [OF run assms]
  show "mFrameIndex (renderer w') =
          (mFrameIndex (renderer w) + length envs) mod length (mSwapchainImages (renderer w))"
    and "slots_used (new_calls w w') =
           map (\<lambda>k. (mFrameIndex (renderer w) + k) mod length (mSwapchainImages (renderer w)))
             [0..<length envs]"
    by simp_all
next
  fix w' assume "render_frames ndebug envs w = Ok w' \<and> mFrameIndex (renderer w) = 0 \<and>
               length (mSwapchainImages (renderer w)) = 2 \<and> length envs = 5"
  then have run: "render_frames ndebug envs w = Ok w'" and i: "mFrameIndex (renderer w) = 0"
    and n: "length (mSwapchainImages (renderer w)) = 2" and five: "length envs = 5"
    by simp_all
  have "[0..<5] = [0, 1, 2, 3, 4 :: nat]"
    by (simp add: upt_rec)
  with render_frames_Ok [OF run assms] show "slots_used (new_calls w w') = [0, 1, 0, 1, 0]"
    by (simp add: i n five)
qed

theorem frame_index_cycle_witness:
  "slots_ok (renderer example_world) \<and>
   (\<exists>w'. render_frames False
            [all_success 1, all_success 0, all_success 0, all_success 1, all_success 1]
            example_world = Ok w' \<and>
      slots_used (new_calls example_world w') = [0, 1, 0, 1, 0] \<and>
      mFrameIndex (renderer w') = 1)"
proof -
  let ?envs = "[all_success 1, all_success 0, all_success 0, all_success 1, all_success 1]"
  have start: "mFrameIndex (renderer example_world) = 0"
    "length (mSwapchainImages (renderer example_world)) = 2"
    by (simp_all add: example_world_def example_renderer_def)
  have "\<exists>w'. render_frames False ?envs example_world = Ok w'"
    by (rule render_frames_succeeds [OF example_slots_ok])
       (auto simp add: all_success_no_failure start)
  then obtain w' where run: "render_frames False ?envs example_world = Ok w'" ..
  from frame_index_cycle [OF example_slots_ok, of False "all_success 0" ?envs] run start
  have "slots_used (new_calls example_world w') = [0, 1, 0, 1, 0]"
    and "mFrameIndex (renderer w') = (0 + 5) mod 2"
    by auto
  with run example_slots_ok show ?thesis by auto
qed

section \<open>The framebuffer of the render pass\<close>

lemma bound_framebuffers_frame_steps:
  "bound_framebuffers (frame_steps r env img) = [mFramebuffers r ! unat img]"
  by (simp add: frame_steps_def step1_wait_submit_def step2_update_uniform_def
        step3_acquire_def step4_wait_acquire_def step5_record_def step6_submit_def
        step7_present_def step8_advance_def Let_def)

lemma bound_framebuffers_take_frame_steps:
  "bound_framebuffers (take k (frame_steps r env img)) =
     (if k \<le> 8 then [] else [mFramebuffers r ! unat img])"
proof -
  consider "k = 0" | "k = 1" | "k = 2" | "k = 3" | "k = 4" | "k = 5" | "k = 6" | "k = 7"
    | "k = 8" | "9 \<le> k" by linarith
  then show ?thesis
  proof cases
    case 10
    then obtain j where "k = 9 + j" using le_Suc_ex by blast
    then show ?thesis
      by (simp add: frame_steps_def step1_wait_submit_def step2_update_uniform_def
        step3_acquire_def step4_wait_acquire_def step5_record_def step6_submit_def
        step7_present_def step8_advance_def Let_def take_Cons' )
  qed (simp_all add: frame_steps_def step1_wait_submit_def step2_update_uniform_def
        step3_acquire_def step4_wait_acquire_def step5_record_def step6_submit_def
        step7_present_def step8_advance_def Let_def)
qed


lemma bound_framebuffers_append [simp]:
  "bound_framebuffers (xs @ ys) = bound_framebuffers xs @ bound_framebuffers ys"
  by (induction xs rule: bound_framebuffers.induct) (simp_all split: vk_call.splits)

lemma render_Abort_acquired:
  assumes "render ndebug env w = Abort w'" and "bound_framebuffers (new_calls w w') \<noteq> []"
  shows "acquired_swapchainImageIndex env = Some (image_of env) \<and>
         unat (image_of env) < length (mFramebuffers (renderer w))"
proof -
  let ?w1 = "(uniform_stored w)
                \<lparr>calls := calls w @ step1_wait_submit (renderer w) env @
                   step2_update_uniform (renderer w) @ step3_acquire (renderer w) env\<rparr>"
  from render_Abort [OF assms(1)] have range: "slot_in_range (renderer w)" by simp
  have early: "bound_framebuffers (step1_wait_submit (renderer w) env) = []"
    "bound_framebuffers (take (Suc 0) (step1_wait_submit (renderer w) env)) = []"
    "bound_framebuffers (step2_update_uniform (renderer w)) = []"
    "bound_framebuffers (step3_acquire (renderer w) env) = []"
    by (simp_all add: step1_wait_submit_def step2_update_uniform_def step3_acquire_def)
  have "render_acquired ndebug env (renderer w) (mFrameIndex (renderer w)) ?w1 = Abort w'"
  proof (rule ccontr)
    assume "render_acquired ndebug env (renderer w) (mFrameIndex (renderer w)) ?w1 \<noteq> Abort w'"
    with assms(1) range have "bound_framebuffers (new_calls w w') = []"
      by (auto simp add: render_unfold new_calls_def early uniform_stored_def split: if_splits)
    with assms(2) show False by simp
  qed
  from render_acquired_Abort [OF this] show ?thesis by simp
qed

text \<open>
  C3. In every render call that begins a render pass (every call that returns, and every
  aborted call that got that far), the driver has stored an image index, the index lies
  within \<open>mFramebuffers\<close>, and the one render pass of the call is begun on the framebuffer
  at the acquired image index. When the framebuffers are distinct handles and the
  acquired index differs from the frame index, that is not the framebuffer at the frame
  index. The two indices are independent: the framebuffer depends on the acquired index
  alone, and the next frame index is \<open>(frame_index + 1) mod N\<close> (with \<open>N \<ge> 1\<close>) whatever
  image was acquired.
\<close>

theorem framebuffer_of_acquired_image:
  assumes "render ndebug env w = Ok w' \<or>
           render ndebug env w = Abort w' \<and> bound_framebuffers (new_calls w w') \<noteq> []"
  shows "\<exists>img. acquired_swapchainImageIndex env = Some img \<and>
           unat img < length (mFramebuffers (renderer w)) \<and>
           bound_framebuffers (new_calls w w') = [mFramebuffers (renderer w) ! unat img] \<and>
           (distinct (mFramebuffers (renderer w)) \<and>
            mFrameIndex (renderer w) < length (mFramebuffers (renderer w)) \<and>
            unat img \<noteq> mFrameIndex (renderer w) \<longrightarrow>
              bound_framebuffers (new_calls w w')
                \<noteq> [mFramebuffers (renderer w) ! mFrameIndex (renderer w)]) \<and>
           (render ndebug env w = Ok w' \<longrightarrow>
              0 < length (mSwapchainImages (renderer w)) \<and>
              mFrameIndex (renderer w') =
                (mFrameIndex (renderer w) + 1) mod length (mSwapchainImages (renderer w)))"
proof -
  let ?img = "image_of env"
  have acquired: "acquired_swapchainImageIndex env = Some ?img"
    and range: "unat ?img < length (mFramebuffers (renderer w))"
    using assms render_Ok [of ndebug env w w'] render_Abort_acquired [of ndebug env w w']
    by auto
  have bound: "bound_framebuffers (new_calls w w') = [mFramebuffers (renderer w) ! unat ?img]"
  proof (cases "render ndebug env w = Ok w'")
    case True
    from render_Ok [OF True] show ?thesis
      by (simp add: bound_framebuffers_frame_steps)
  next
    case False
    with assms have abort: "render ndebug env w = Abort w'"
      and nonempty: "bound_framebuffers (new_calls w w') \<noteq> []" by auto
    from render_Abort [OF abort] have
      "calls w' = calls w @ log_until_abort (frame_steps (renderer w) env ?img)" by auto
    moreover from log_until_abort_take obtain k where
      "log_until_abort (frame_steps (renderer w) env ?img) = take k (frame_steps (renderer w) env ?img)"
      by blast
    ultimately have "new_calls w w' = take k (frame_steps (renderer w) env ?img)"
      by simp
    with nonempty show ?thesis
      by (simp add: bound_framebuffers_take_frame_steps split: if_splits)
  qed
  have positive: "0 < length (mSwapchainImages (renderer w))" if "render ndebug env w = Ok w'"
    using render_Ok [OF that] by simp
  have other: "mFramebuffers (renderer w) ! unat ?img
                 \<noteq> mFramebuffers (renderer w) ! mFrameIndex (renderer w)"
    if "distinct (mFramebuffers (renderer w))"
      "mFrameIndex (renderer w) < length (mFramebuffers (renderer w))"
      "unat ?img \<noteq> mFrameIndex (renderer w)"
    using that range by (simp add: nth_eq_iff_index_eq)
  have index: "mFrameIndex (renderer w') =
                (mFrameIndex (renderer w) + 1) mod length (mSwapchainImages (renderer w))"
    if "render ndebug env w = Ok w'"
    using render_Ok_renderer [OF that] by simp
  from acquired range bound other index positive show ?thesis
    by (intro exI [of _ ?img]) simp
qed


lemma example_render_Ok:
  assumes "unat img < 2"
  shows "\<exists>w'. render ndebug (all_success img) example_world = Ok w'"
proof -
  have "render ndebug (all_success img) example_world \<noteq> Abort w'" for w'
    using render_Abort [of ndebug "all_success img" example_world w'] all_success_no_failure [of img]
    by auto
  with example_defined [OF assms, of ndebug] show ?thesis
    by (cases "render ndebug (all_success img) example_world") auto
qed

theorem framebuffer_of_acquired_image_witness:
  "\<exists>w'. render False (all_success 1) example_world = Ok w' \<and>
      mFrameIndex (renderer example_world) = 0 \<and>
      bound_framebuffers (new_calls example_world w') = [71] \<and>
      mFramebuffers (renderer example_world) ! mFrameIndex (renderer example_world) = 70 \<and>
      mFrameIndex (renderer w') = 1"
proof -
  from example_render_Ok [of 1 False] obtain w' where
    ok: "render False (all_success 1) example_world = Ok w'" by auto
  from framebuffer_of_acquired_image [of False "all_success 1" example_world w'] ok
  have "bound_framebuffers (new_calls example_world w') = [71]"
    and "mFrameIndex (renderer w') = 1"
    by (auto simp add: example_world_def example_renderer_def)
  with ok show ?thesis
    by (auto simp add: example_world_def example_renderer_def)
qed

section \<open>What a frame writes to the uniform blocks\<close>

lemma same_untouched_refl: "same_untouched r r"
  by (simp add: same_untouched_def)

lemma same_untouched_trans:
  "same_untouched r r1 \<Longrightarrow> same_untouched r1 r2 \<Longrightarrow> same_untouched r r2"
  by (simp add: same_untouched_def)

lemma same_untouched_uniform_stored:
  "same_untouched (renderer w) (renderer (uniform_stored w))"
proof -
  let ?r = "renderer w"
  have "position ((mUniformData ?r)[mFrameIndex ?r := uniform_written ?r] ! j) ! k
          = position (mUniformData ?r ! j) ! k"
    if "j < length (mUniformData ?r)" "k \<noteq> 0" "k \<noteq> 4" for j k
  proof (cases "j = mFrameIndex ?r")
    case True
    with that show ?thesis
      by (simp add: uniform_written_position)
  next
    case False
    then show ?thesis by simp
  qed
  then show ?thesis
    by (simp add: same_untouched_def uniform_stored_def)
qed

lemma same_untouched_frame_index:
  "same_untouched r r' \<Longrightarrow> same_untouched r (r'\<lparr>mFrameIndex := n\<rparr>)"
  by (simp add: same_untouched_def)

lemma render_same_untouched:
  assumes "render ndebug env w = Ok w' \<or> render ndebug env w = Abort w'"
  shows "same_untouched (renderer w) (renderer w')"
  using assms
proof
  assume "render ndebug env w = Ok w'"
  from render_Ok_renderer [OF this] show ?thesis
    by (simp add: same_untouched_frame_index same_untouched_uniform_stored)
next
  assume "render ndebug env w = Abort w'"
  from render_Abort [OF this] show ?thesis
    by (auto simp add: same_untouched_refl same_untouched_uniform_stored)
qed

lemma render_frames_same_untouched:
  assumes "render_frames ndebug envs w = Ok w' \<or> render_frames ndebug envs w = Abort w'"
  shows "same_untouched (renderer w) (renderer w')"
  using assms
proof (induction envs arbitrary: w)
  case Nil
  then show ?case by (simp add: same_untouched_refl)
next
  case (Cons env envs)
  show ?case
  proof (cases "render ndebug env w")
    case (Ok w1)
    with Cons.prems
    have "render_frames ndebug envs w1 = Ok w' \<or> render_frames ndebug envs w1 = Abort w'"
      by simp
    from Cons.IH [OF this] render_same_untouched [of ndebug env w w1] Ok
    show ?thesis by (auto intro: same_untouched_trans)
  next
    case (Abort w1)
    with Cons.prems have "w' = w1" by simp
    with render_same_untouched [of ndebug env w w1] Abort show ?thesis by simp
  next
    case Undefined
    with Cons.prems show ?thesis by simp
  qed
qed

text \<open>
  C10. Whatever number of render calls has run (returned, or ended in an abort), every
  uniform block still has, at the six positions other than 0 and 4, the values it had
  before; for blocks as the constructor's \<open>memset\<close> leaves them these are zero. A render
  call that returns has changed, of the whole object, only the frame index and, in the
  block of its slot, \<open>position[0]\<close>, \<open>position[4]\<close> and \<open>ratio\<close>.
\<close>

theorem render_writes_positions_0_and_4:
  assumes "render_frames ndebug envs w = Ok w' \<or> render_frames ndebug envs w = Abort w'"
  shows "length (mUniformData (renderer w')) = length (mUniformData (renderer w)) \<and>
         (\<forall>j<length (mUniformData (renderer w)). \<forall>k<8. k \<noteq> 0 \<and> k \<noteq> 4 \<longrightarrow>
            position (mUniformData (renderer w') ! j) ! k
              = position (mUniformData (renderer w) ! j) ! k) \<and>
         (mUniformData (renderer w) = replicate (length (mSwapchainImages (renderer w))) Uniform_memset_0 \<longrightarrow>
            (\<forall>j<length (mSwapchainImages (renderer w)). \<forall>k<8. k \<noteq> 0 \<and> k \<noteq> 4 \<longrightarrow>
               position (mUniformData (renderer w') ! j) ! k = Finite 0)) \<and>
         (\<forall>env w1. render ndebug env w = Ok w1 \<longrightarrow>
            renderer w1 = (renderer w)
              \<lparr>mUniformData := (mUniformData (renderer w))
                 [mFrameIndex (renderer w) :=
                    (mUniformData (renderer w) ! mFrameIndex (renderer w))
                      \<lparr>position := (position (mUniformData (renderer w) ! mFrameIndex (renderer w)))
                         [0 := position_updated
                                 (position (mUniformData (renderer w) ! mFrameIndex (renderer w)) ! 0),
                          4 := position_updated
                                 (position (mUniformData (renderer w) ! mFrameIndex (renderer w)) ! 4)],
                       ratio := float_div
                                  (float_of_uint32 (height (mSwapchainImageExtent (renderer w))))
                                  (float_of_uint32 (width (mSwapchainImageExtent (renderer w))))\<rparr>],
               mFrameIndex := (mFrameIndex (renderer w) + 1) mod length (mSwapchainImages (renderer w))\<rparr>)"
proof -
  from render_frames_same_untouched [OF assms]
  have same: "same_untouched (renderer w) (renderer w')" .
  then have len: "length (mUniformData (renderer w')) = length (mUniformData (renderer w))"
    and keep: "\<forall>j<length (mUniformData (renderer w)). \<forall>k<8. k \<noteq> 0 \<and> k \<noteq> 4 \<longrightarrow>
            position (mUniformData (renderer w') ! j) ! k
              = position (mUniformData (renderer w) ! j) ! k"
    by (simp_all add: same_untouched_def)
  have zero: "\<forall>j<length (mSwapchainImages (renderer w)). \<forall>k<8. k \<noteq> 0 \<and> k \<noteq> 4 \<longrightarrow>
               position (mUniformData (renderer w') ! j) ! k = Finite 0"
    if "mUniformData (renderer w) = replicate (length (mSwapchainImages (renderer w))) Uniform_memset_0"
    using keep that by (simp add: Uniform_memset_0_def)
  have one: "renderer w1 = (renderer w)
              \<lparr>mUniformData := (mUniformData (renderer w))
                 [mFrameIndex (renderer w) :=
                    (mUniformData (renderer w) ! mFrameIndex (renderer w))
                      \<lparr>position := (position (mUniformData (renderer w) ! mFrameIndex (renderer w)))
                         [0 := position_updated
                                 (position (mUniformData (renderer w) ! mFrameIndex (renderer w)) ! 0),
                          4 := position_updated
                                 (position (mUniformData (renderer w) ! mFrameIndex (renderer w)) ! 4)],
                       ratio := float_div
                                  (float_of_uint32 (height (mSwapchainImageExtent (renderer w))))
                                  (float_of_uint32 (width (mSwapchainImageExtent (renderer w))))\<rparr>],
               mFrameIndex := (mFrameIndex (renderer w) + 1) mod length (mSwapchainImages (renderer w))\<rparr>"
    if "render ndebug env w = Ok w1" for env w1
    using render_Ok_renderer [OF that]
    by (simp add: uniform_stored_def uniform_written_def update_position_from_0)
  from len keep zero one show ?thesis by blast
qed


theorem render_writes_positions_0_and_4_witness:
  "\<exists>w'. render_frames False [all_success 1, all_success 0, all_success 1] example_world = Ok w' \<and>
      mUniformData (renderer example_world) = replicate 2 Uniform_memset_0 \<and>
      length (mUniformData (renderer w')) = 2 \<and>
      position (mUniformData (renderer w') ! 0) ! 1 = Finite 0 \<and>
      position (mUniformData (renderer w') ! 0) ! 7 = Finite 0 \<and>
      position (mUniformData (renderer w') ! 1) ! 3 = Finite 0 \<and>
      position (mUniformData (renderer w') ! 1) ! 5 = Finite 0"
proof -
  let ?envs = "[all_success 1, all_success 0, all_success 1]"
  have start: "mUniformData (renderer example_world) = replicate 2 Uniform_memset_0"
    "length (mSwapchainImages (renderer example_world)) = 2"
    by (simp_all add: example_world_def example_renderer_def numeral_2_eq_2)
  have "\<exists>w'. render_frames False ?envs example_world = Ok w'"
    by (rule render_frames_succeeds [OF example_slots_ok])
       (auto simp add: all_success_no_failure start)
  then obtain w' where run: "render_frames False ?envs example_world = Ok w'" ..
  note frame = render_writes_positions_0_and_4 [of False ?envs example_world w',
      OF disjI1 [OF run], unfolded start(2)]
  from frame start(1) have len: "length (mUniformData (renderer w')) = 2"
    by simp
  from frame start(1) have zero: "\<forall>j<2. \<forall>k<8. k \<noteq> 0 \<and> k \<noteq> 4 \<longrightarrow>
               position (mUniformData (renderer w') ! j) ! k = Finite 0"
    by blast
  from zero have "position (mUniformData (renderer w') ! 0) ! 1 = Finite 0"
    "position (mUniformData (renderer w') ! 0) ! 7 = Finite 0"
    "position (mUniformData (renderer w') ! 1) ! 3 = Finite 0"
    "position (mUniformData (renderer w') ! 1) ! 5 = Finite 0"
    by simp_all
  with run start len show ?thesis by blast
qed

section \<open>Checked and unchecked results\<close>

lemma first_failure_Some:
  assumes "first_failure cs = Some c"
  shows "c \<in> set cs \<and> snd c \<noteq> VK_SUCCESS"
  using assms unfolding first_failure_def
  by (auto simp add: find_Some_iff intro: nth_mem)

lemma render_Abort_last:
  assumes "render ndebug env w = Abort w'" and "first_failure (checked_calls env) = Some c"
  shows "checked (fst (last (new_calls w w'))) \<and> snd (last (new_calls w w')) = Some (snd c)"
proof -
  from render_Abort [OF assms(1)]
  have "new_calls w w' = log_until_abort (frame_steps (renderer w) env (image_of env))"
    by auto
  moreover have "checked (fst (last (log_until_abort (frame_steps r env img)))) \<and>
      snd (last (log_until_abort (frame_steps r env img))) = Some (snd c)" for r img
    using assms(2)
    apply (simp add: first_failure_def checked_calls_def split: if_splits)
    apply (auto simp add: frame_steps_def step1_wait_submit_def step2_update_uniform_def
        step3_acquire_def step4_wait_acquire_def step5_record_def step6_submit_def
        step7_present_def step8_advance_def Let_def checked_def)
    done
  ultimately show ?thesis by simp
qed

lemma render_cases:
  assumes "render ndebug env w \<noteq> Undefined"
  shows "(ndebug \<or> first_failure (checked_calls env) = None) \<and> (\<exists>w'. render ndebug env w = Ok w') \<or>
         \<not> ndebug \<and> first_failure (checked_calls env) \<noteq> None \<and> (\<exists>w'. render ndebug env w = Abort w')"
proof (cases "render ndebug env w")
  case (Ok w')
  with render_Ok_results [OF Ok] show ?thesis by (cases ndebug) auto
next
  case (Abort w')
  with render_Abort [OF Abort] show ?thesis by auto
next
  case Undefined
  with assms show ?thesis by simp
qed

lemma render_returns_quietly:
  assumes "render ndebug env w \<noteq> Undefined" and "ndebug \<or> first_failure (checked_calls env) = None"
  shows "returned (render ndebug env w) \<and> written w (render ndebug env w) = []"
proof -
  from render_cases [OF assms(1)] assms(2) obtain w' where ok: "render ndebug env w = Ok w'"
    by auto
  from render_Ok [OF ok] have "aout w' = aout w" by simp
  with ok show ?thesis by (simp add: returned_def written_def)
qed

lemma VK_CHECK_ERROR_without_NDEBUG:
  "VK_CHECK_ERROR False txt (vk c res) w =
     (if res = VK_SUCCESS then Ok (w\<lparr>calls := calls w @ [(c, Some res)]\<rparr>)
      else Abort (w\<lparr>calls := calls w @ [(c, Some res)],
                    aout := aout w @ [txt @ '' returns '' @ vkToString res @ ''.'']\<rparr>))"
  by (simp add: VK_CHECK_ERROR_def vk_def)

text \<open>
  The calls made through \<open>VK_CHECK_ERROR\<close>, in the build without \<open>NDEBUG\<close>. Such a call is
  checked at the call site: when its result is \<open>VK_SUCCESS\<close> execution goes on, otherwise
  one line (the text of the call, \<open>returns\<close>, the name of the result, a full stop) is
  written and the process aborts. For \<open>render\<close>: when every call it makes through the macro
  returns \<open>VK_SUCCESS\<close> it returns and writes nothing; otherwise it aborts at the first one
  that does not, having written the line for that call, and that call is the last one it
  made. No result is handed to the caller and nothing recovers.
\<close>

lemma render_checked_calls:
  assumes "render False env w \<noteq> Undefined"
  shows "(\<forall>txt c res w0.
            VK_CHECK_ERROR False txt (vk c res) w0 =
              (if res = VK_SUCCESS then Ok (w0\<lparr>calls := calls w0 @ [(c, Some res)]\<rparr>)
               else Abort (w0\<lparr>calls := calls w0 @ [(c, Some res)],
                      aout := aout w0 @ [txt @ '' returns '' @ vkToString res @ ''.'']\<rparr>))) \<and>
         (first_failure (checked_calls env) = None \<longrightarrow>
            returned (render False env w) \<and> written w (render False env w) = []) \<and>
         (\<forall>c. first_failure (checked_calls env) = Some c \<longrightarrow>
            snd c \<noteq> VK_SUCCESS \<and>
            aborted (render False env w) \<and>
            written w (render False env w) = [fst c @ '' returns '' @ vkToString (snd c) @ ''.''] \<and>
            logged w (render False env w) =
              log_until_abort (frame_steps (renderer w) env (image_of env)) \<and>
            checked (fst (last (logged w (render False env w)))) \<and>
            snd (last (logged w (render False env w))) = Some (snd c))"
proof (intro conjI allI impI)
  fix str c res w0
  show "VK_CHECK_ERROR False str (vk c res) w0 =
              (if res = VK_SUCCESS then Ok (w0\<lparr>calls := calls w0 @ [(c, Some res)]\<rparr>)
               else Abort (w0\<lparr>calls := calls w0 @ [(c, Some res)],
                      aout := aout w0 @ [str @ '' returns '' @ vkToString res @ ''.'']\<rparr>))"
    by (rule VK_CHECK_ERROR_without_NDEBUG)
next
  assume none: "first_failure (checked_calls env) = None"
  with render_returns_quietly [OF assms]
  show "returned (render False env w)" and "written w (render False env w) = []"
    by simp_all
next
  fix c assume c: "first_failure (checked_calls env) = Some c"
  with render_cases [OF assms] obtain w' where abort: "render False env w = Abort w'" by auto
  from first_failure_Some [OF c] show "snd c \<noteq> VK_SUCCESS" by simp
  from abort show "aborted (render False env w)" by (simp add: aborted_def)
  from render_Abort [OF abort] c
  have out: "aout w' = aout w @ [check_message c]"
    and log: "calls w' = calls w @ log_until_abort (frame_steps (renderer w) env (image_of env))"
    by auto
  from out abort
  show "written w (render False env w) = [fst c @ '' returns '' @ vkToString (snd c) @ ''.'']"
    by (simp add: written_def check_message_def)
  from log abort
  show "logged w (render False env w) =
          log_until_abort (frame_steps (renderer w) env (image_of env))"
    by (simp add: logged_def)
  from render_Abort_last [OF abort c] abort
  show "checked (fst (last (logged w (render False env w))))"
    and "snd (last (logged w (render False env w))) = Some (snd c)"
    by (simp_all add: logged_def)
qed

lemma example_env_defined:
  assumes "acquired_swapchainImageIndex env = Some img" "unat img < 2"
  shows "render ndebug env example_world \<noteq> Undefined"
  using assms
  by (intro render_defined [OF example_slot_in_range, of _ img])
     (simp_all add: example_world_def example_renderer_def)

lemma render_checked_calls_example:
  "render False submit_fails example_world \<noteq> Undefined \<and>
   first_failure (checked_calls submit_fails) = Some (text_submit, VK_ERROR_DEVICE_LOST) \<and>
   aborted (render False submit_fails example_world) \<and>
   written example_world (render False submit_fails example_world) =
     [''vkQueueSubmit(mQueue, 1, &submitInfo, fenceForSubmit) returns VK_ERROR_DEVICE_LOST.'']"
proof -
  have defined: "render False submit_fails example_world \<noteq> Undefined"
    by (rule example_env_defined [of _ 1]) (simp_all add: submit_fails_def all_success_def)
  have failure: "first_failure (checked_calls submit_fails) = Some (text_submit, VK_ERROR_DEVICE_LOST)"
    by (simp add: first_failure_def checked_calls_def submit_fails_def all_success_def)
  from render_checked_calls [OF defined] failure
  have "aborted (render False submit_fails example_world)"
    and "written example_world (render False submit_fails example_world) =
           [text_submit @ '' returns '' @ vkToString VK_ERROR_DEVICE_LOST @ ''.'']"
    by simp_all
  with defined failure show ?thesis
    by (simp add: text_submit_def)
qed

text \<open>
  C7. Every fallible call is to be checked at the call site, a result other than
  \<open>VK_SUCCESS\<close> logged and the process aborted. \<open>render\<close> does so for the nine calls it wraps
  in \<open>VK_CHECK_ERROR\<close>, but it calls \<open>vkResetCommandBuffer\<close> bare and drops its
  \<open>VkResult\<close>. On the example renderer, in a frame where that call returns
  \<open>VK_ERROR_OUT_OF_DEVICE_MEMORY\<close> and every other call succeeds, \<open>render\<close> writes nothing,
  does not abort, and goes on to begin, record and submit the same command buffer and to
  present: it makes all twenty calls of a frame and returns.
\<close>

theorem vkResetCommandBuffer_result_dropped:
  "command_buffer_reset command_buffer_reset_fails = VK_ERROR_OUT_OF_DEVICE_MEMORY \<and>
   returned (render False command_buffer_reset_fails example_world) \<and>
   \<not> aborted (render False command_buffer_reset_fails example_world) \<and>
   written example_world (render False command_buffer_reset_fails example_world) = [] \<and>
   length (logged example_world (render False command_buffer_reset_fails example_world)) = 20 \<and>
   logged example_world (render False command_buffer_reset_fails example_world) ! 6 =
     (vkResetCommandBuffer 20, Some VK_ERROR_OUT_OF_DEVICE_MEMORY) \<and>
   logged example_world (render False command_buffer_reset_fails example_world) ! 7 =
     (vkBeginCommandBuffer 20, Some VK_SUCCESS) \<and>
   logged example_world (render False command_buffer_reset_fails example_world) ! 17 =
     (vkQueueSubmit 3 20 50 30, Some VK_SUCCESS) \<and>
   logged example_world (render False command_buffer_reset_fails example_world) ! 18 =
     (vkQueuePresentKHR 3 50 5 1, Some VK_SUCCESS)"
proof -
  have defined: "render False command_buffer_reset_fails example_world \<noteq> Undefined"
    by (rule example_env_defined [of _ 1])
       (simp_all add: command_buffer_reset_fails_def all_success_def)
  have checked: "first_failure (checked_calls command_buffer_reset_fails) = None"
    by (simp add: first_failure_def checked_calls_def command_buffer_reset_fails_def
          all_success_def)
  from render_cases [OF defined] checked obtain w' where
    ok: "render False command_buffer_reset_fails example_world = Ok w'"
    by auto
  have img: "image_of command_buffer_reset_fails = 1"
    by (simp add: image_of_def command_buffer_reset_fails_def all_success_def)
  from render_Ok [OF ok]
  have log: "calls w' = calls example_world @
               frame_steps (renderer example_world) command_buffer_reset_fails 1"
    and out: "aout w' = aout example_world"
    by (simp_all add: img)
  have steps: "frame_steps (renderer example_world) command_buffer_reset_fails 1 ! 6 =
      (vkResetCommandBuffer 20, Some VK_ERROR_OUT_OF_DEVICE_MEMORY)"
    "frame_steps (renderer example_world) command_buffer_reset_fails 1 ! 7 =
      (vkBeginCommandBuffer 20, Some VK_SUCCESS)"
    "frame_steps (renderer example_world) command_buffer_reset_fails 1 ! 17 =
      (vkQueueSubmit 3 20 50 30, Some VK_SUCCESS)"
    "frame_steps (renderer example_world) command_buffer_reset_fails 1 ! 18 =
      (vkQueuePresentKHR 3 50 5 1, Some VK_SUCCESS)"
    "length (frame_steps (renderer example_world) command_buffer_reset_fails 1) = 20"
    by (simp_all add: frame_steps_defs Let_def example_world_def example_renderer_def
          command_buffer_reset_fails_def all_success_def)
  from ok log out steps show ?thesis
    by (simp add: returned_def aborted_def written_def logged_def new_calls_def
          command_buffer_reset_fails_def all_success_def)
qed

section \<open>Rounding, with a certificate\<close>

lemma bit_length_eq: "2 ^ k \<le> n \<Longrightarrow> n < 2 ^ Suc k \<Longrightarrow> bit_length n = Suc k"
proof (induction k arbitrary: n)
  case 0
  then have "n = 1" by simp
  then show ?case by (simp add: bit_length.simps)
next
  case (Suc k)
  from Suc.prems have "2 ^ k \<le> n div 2" "n div 2 < 2 ^ Suc k" by auto
  then have "bit_length (n div 2) = Suc k" by (rule Suc.IH)
  moreover from Suc.prems have "n \<noteq> 0" by auto
  ultimately show ?case by (subst bit_length.simps) simp
qed

lemma pow2_nonneg: "0 \<le> e \<Longrightarrow> pow2 e = 2 ^ nat e"
  by (simp add: pow2_def)

lemma pow2_neg: "e \<le> 0 \<Longrightarrow> pow2 e = 1 / 2 ^ nat (- e)"
  by (simp add: pow2_def)

lemma floor_log2_eq:
  assumes "pow2 e \<le> x" and "x < pow2 (e + 1)"
  shows "floor_log2 x = e"
proof (cases "0 \<le> e")
  case True
  define k where "k = nat e"
  from True have e: "e = int k" by (simp add: k_def)
  from assms have lo: "(2::rat) ^ k \<le> x" and hi: "x < 2 ^ Suc k"
    by (simp_all add: pow2_def e nat_add_distrib)
  have "(1::rat) \<le> 2 ^ k" by simp
  with lo have x1: "1 \<le> x" by linarith
  have "(2::int) ^ k \<le> \<lfloor>x\<rfloor>"
    using lo by (simp add: le_floor_iff)
  then have a: "2 ^ k \<le> nat \<lfloor>x\<rfloor>"
    by (simp add: le_nat_iff)
  have "\<lfloor>x\<rfloor> < 2 ^ Suc k"
    using hi by (simp add: floor_less_iff)
  then have b: "nat \<lfloor>x\<rfloor> < 2 ^ Suc k"
    using x1 by (simp add: nat_less_iff)
  from bit_length_eq [OF a b] x1 show ?thesis
    by (simp add: floor_log2_def e)
next
  case False
  define k where "k = nat (- e) - 1"
  from False have e: "e = - int (Suc k)" by (simp add: k_def)
  have "pow2 e = 1 / 2 ^ Suc k"
    by (simp add: pow2_def e nat_add_distrib)
  moreover have "pow2 (e + 1) = 1 / 2 ^ k"
    by (cases k) (simp_all add: pow2_def e nat_add_distrib)
  ultimately have lo: "1 / (2::rat) ^ Suc k \<le> x" and hi: "x < 1 / 2 ^ k"
    using assms by simp_all
  have "0 < 1 / (2::rat) ^ Suc k" by simp
  with lo have pos: "0 < x" by linarith
  have "x < 1"
  proof -
    have "1 / (2::rat) ^ k \<le> 1" by simp
    with hi show ?thesis by linarith
  qed
  have up: "1 / x \<le> 2 ^ Suc k"
    using lo pos by (simp add: field_simps)
  have down: "2 ^ k < 1 / x"
    using hi pos by (simp add: field_simps)
  have c_le: "\<lceil>1 / x\<rceil> \<le> 2 ^ Suc k"
    using up by (simp add: ceiling_le_iff)
  have c_gt: "2 ^ k < \<lceil>1 / x\<rceil>"
    using down by (simp add: less_ceiling_iff)
  have "(0::int) \<le> 2 ^ k" by simp
  with c_gt have "0 \<le> \<lceil>1 / x\<rceil>" by linarith
  then obtain m where m: "\<lceil>1 / x\<rceil> = int m"
    by (rule nonneg_int_cases)
  from c_le have "int m \<le> int (2 ^ Suc k)"
    unfolding m by simp
  then have "m \<le> 2 ^ Suc k"
    by (simp only: of_nat_le_iff)
  moreover from c_gt have "int (2 ^ k) < int m"
    unfolding m by simp
  then have "2 ^ k < m"
    by (simp only: of_nat_less_iff)
  ultimately have "m \<le> 2 ^ Suc k" and "2 ^ k < m" .
  then have a: "2 ^ k \<le> nat \<lceil>1 / x\<rceil> - 1" and b: "nat \<lceil>1 / x\<rceil> - 1 < 2 ^ Suc k"
    unfolding m by simp_all
  from bit_length_eq [OF a b] \<open>x < 1\<close> show ?thesis
    by (simp add: floor_log2_def e)
qed

lemma round_half_even_certificate:
  assumes "\<bar>q - of_int n\<bar> < 1 / 2 \<or> \<bar>q - of_int n\<bar> = 1 / 2 \<and> even n"
  shows "round_half_even q = n"
proof -
  consider (below) "of_int n \<le> q" "q - of_int n < 1 / 2"
    | (above) "q < of_int n" "of_int n - q < 1 / 2"
    | (tie_up) "q - of_int n = 1 / 2" "even n"
    | (tie_down) "of_int n - q = 1 / 2" "even n"
    using assms by (cases "of_int n \<le> q") (auto simp add: abs_if split: if_splits)
  then show ?thesis
  proof cases
    case below
    then have "\<lfloor>q\<rfloor> = n" by (intro floor_unique) auto
    with below show ?thesis by (simp add: round_half_even_def)
  next
    case above
    then have fl: "\<lfloor>q\<rfloor> = n - 1" by (intro floor_unique) auto
    from above have "1 / 2 < q - of_int (n - 1)" by simp
    with fl show ?thesis by (simp add: round_half_even_def)
  next
    case tie_up
    then have "\<lfloor>q\<rfloor> = n" by (intro floor_unique) auto
    with tie_up show ?thesis by (simp add: round_half_even_def)
  next
    case tie_down
    then have fl: "\<lfloor>q\<rfloor> = n - 1" by (intro floor_unique) auto
    from tie_down have "q - of_int (n - 1) = 1 / 2" by simp
    with fl tie_down(2) show ?thesis by (simp add: round_half_even_def)
  qed
qed

lemma round_binary_certificate:
  assumes "x \<noteq> 0" and "pow2 e \<le> \<bar>x\<bar>" and "\<bar>x\<bar> < pow2 (e + 1)" and "emin \<le> e"
    and "\<bar>x / pow2 (e - int p + 1) - of_int n\<bar> < 1 / 2 \<or>
         \<bar>x / pow2 (e - int p + 1) - of_int n\<bar> = 1 / 2 \<and> even n"
    and "\<bar>of_int n * pow2 (e - int p + 1)\<bar> < pow2 (emax + 1)"
  shows "round_binary p emin emax x = Finite (of_int n * pow2 (e - int p + 1))"
proof -
  from floor_log2_eq [OF assms(2,3)] assms(4) have "max (floor_log2 \<bar>x\<bar>) emin = e"
    by simp
  with assms(1,6) round_half_even_certificate [OF assms(5)] show ?thesis
    by (simp add: round_binary_def Let_def)
qed

section \<open>The uniform position over ten frames\<close>

text \<open>The constants of the update rule as doubles and floats, and each of the ten additions
  from 1.49: the sum rounded to a double, then narrowed to a float.\<close>

lemma double_0_01:
  "round_binary 53 (- 1022) 1023 (1 / 100) = Finite (5764607523034235 / 576460752303423488)"
proof -
  have "round_binary 53 (- 1022) 1023 (1 / 100)
          = Finite (of_int (5764607523034235) * pow2 ((- 7) - int 53 + 1))"
    by (rule round_binary_certificate) (simp_all add: pow2_def)
  then show ?thesis
    by (simp add: pow2_def)
qed

lemma double_1_5:
  "round_binary 53 (- 1022) 1023 (3 / 2) = Finite (3 / 2)"
proof -
  have "round_binary 53 (- 1022) 1023 (3 / 2)
          = Finite (of_int (6755399441055744) * pow2 ((0) - int 53 + 1))"
    by (rule round_binary_certificate) (simp_all add: pow2_def)
  then show ?thesis
    by (simp add: pow2_def)
qed

lemma float_1_49:
  "round_binary 24 (- 126) 127 (149 / 100) = Finite (6249513 / 4194304)"
proof -
  have "round_binary 24 (- 126) 127 (149 / 100)
          = Finite (of_int (12499026) * pow2 ((0) - int 24 + 1))"
    by (rule round_binary_certificate) (simp_all add: pow2_def)
  then show ?thesis
    by (simp add: pow2_def)
qed

lemma float_1_50:
  "round_binary 24 (- 126) 127 (150 / 100) = Finite (3 / 2)"
proof -
  have "round_binary 24 (- 126) 127 (150 / 100)
          = Finite (of_int (12582912) * pow2 ((0) - int 24 + 1))"
    by (rule round_binary_certificate) (simp_all add: pow2_def)
  then show ?thesis
    by (simp add: pow2_def)
qed

lemma float_1_51:
  "round_binary 24 (- 126) 127 (151 / 100) = Finite (6333399 / 4194304)"
proof -
  have "round_binary 24 (- 126) 127 (151 / 100)
          = Finite (of_int (12666798) * pow2 ((0) - int 24 + 1))"
    by (rule round_binary_certificate) (simp_all add: pow2_def)
  then show ?thesis
    by (simp add: pow2_def)
qed

lemma float_minus_1_5:
  "round_binary 24 (- 126) 127 (- (3 / 2)) = Finite (- (3 / 2))"
proof -
  have "round_binary 24 (- 126) 127 (- (3 / 2))
          = Finite (of_int (- 12582912) * pow2 ((0) - int 24 + 1))"
    by (rule round_binary_certificate) (simp_all add: pow2_def)
  then show ?thesis
    by (simp add: pow2_def)
qed

lemma sum_1:
  "round_binary 53 (- 1022) 1023 (864691133952693371 / 576460752303423488) = Finite (6755399484005417 / 4503599627370496)"
proof -
  have "round_binary 53 (- 1022) 1023 (864691133952693371 / 576460752303423488)
          = Finite (of_int (6755399484005417) * pow2 ((0) - int 53 + 1))"
    by (rule round_binary_certificate) (simp_all add: pow2_def)
  then show ?thesis
    by (simp add: pow2_def)
qed

lemma narrow_1:
  "round_binary 24 (- 126) 127 (6755399484005417 / 4503599627370496) = Finite (3 / 2)"
proof -
  have "round_binary 24 (- 126) 127 (6755399484005417 / 4503599627370496)
          = Finite (of_int (12582912) * pow2 ((0) - int 24 + 1))"
    by (rule round_binary_certificate) (simp_all add: pow2_def)
  then show ?thesis
    by (simp add: pow2_def)
qed

lemma incremented_1: "position_incremented (Finite (6249513 / 4194304)) = Finite (3 / 2)"
  by (simp add: position_incremented_def double_of_rat_def float_of_rat_def double_0_01 sum_1 narrow_1)

lemma updated_1: "position_updated (Finite (6249513 / 4194304)) = Finite (3 / 2)"
  by (simp add: position_updated_def incremented_1 double_of_rat_def double_1_5 float_of_rat_def float_minus_1_5)

lemma sum_2:
  "round_binary 53 (- 1022) 1023 (870455735978169467 / 576460752303423488) = Finite (6800435437329449 / 4503599627370496)"
proof -
  have "round_binary 53 (- 1022) 1023 (870455735978169467 / 576460752303423488)
          = Finite (of_int (6800435437329449) * pow2 ((0) - int 53 + 1))"
    by (rule round_binary_certificate) (simp_all add: pow2_def)
  then show ?thesis
    by (simp add: pow2_def)
qed

lemma narrow_2:
  "round_binary 24 (- 126) 127 (6800435437329449 / 4503599627370496) = Finite (6333399 / 4194304)"
proof -
  have "round_binary 24 (- 126) 127 (6800435437329449 / 4503599627370496)
          = Finite (of_int (12666798) * pow2 ((0) - int 24 + 1))"
    by (rule round_binary_certificate) (simp_all add: pow2_def)
  then show ?thesis
    by (simp add: pow2_def)
qed

lemma incremented_2: "position_incremented (Finite (3 / 2)) = Finite (6333399 / 4194304)"
  by (simp add: position_incremented_def double_of_rat_def float_of_rat_def double_0_01 sum_2 narrow_2)

lemma updated_2: "position_updated (Finite (3 / 2)) = Finite (- (3 / 2))"
  by (simp add: position_updated_def incremented_2 double_of_rat_def double_1_5 float_of_rat_def float_minus_1_5)

lemma sum_3:
  "round_binary 53 (- 1022) 1023 (- (858926520932100997 / 576460752303423488)) = Finite (- (6710363444782039 / 4503599627370496))"
proof -
  have "round_binary 53 (- 1022) 1023 (- (858926520932100997 / 576460752303423488))
          = Finite (of_int (- 6710363444782039) * pow2 ((0) - int 53 + 1))"
    by (rule round_binary_certificate) (simp_all add: pow2_def)
  then show ?thesis
    by (simp add: pow2_def)
qed

lemma narrow_3:
  "round_binary 24 (- 126) 127 (- (6710363444782039 / 4503599627370496)) = Finite (- (6249513 / 4194304))"
proof -
  have "round_binary 24 (- 126) 127 (- (6710363444782039 / 4503599627370496))
          = Finite (of_int (- 12499026) * pow2 ((0) - int 24 + 1))"
    by (rule round_binary_certificate) (simp_all add: pow2_def)
  then show ?thesis
    by (simp add: pow2_def)
qed

lemma incremented_3: "position_incremented (Finite (- (3 / 2))) = Finite (- (6249513 / 4194304))"
  by (simp add: position_incremented_def double_of_rat_def float_of_rat_def double_0_01 sum_3 narrow_3)

lemma updated_3: "position_updated (Finite (- (3 / 2))) = Finite (- (6249513 / 4194304))"
  by (simp add: position_updated_def incremented_3 double_of_rat_def double_1_5 float_of_rat_def float_minus_1_5)

lemma sum_4:
  "round_binary 53 (- 1022) 1023 (- (853161918906624901 / 576460752303423488)) = Finite (- (6665327491458007 / 4503599627370496))"
proof -
  have "round_binary 53 (- 1022) 1023 (- (853161918906624901 / 576460752303423488))
          = Finite (of_int (- 6665327491458007) * pow2 ((0) - int 53 + 1))"
    by (rule round_binary_certificate) (simp_all add: pow2_def)
  then show ?thesis
    by (simp add: pow2_def)
qed

lemma narrow_4:
  "round_binary 24 (- 126) 127 (- (6665327491458007 / 4503599627370496)) = Finite (- (3103785 / 2097152))"
proof -
  have "round_binary 24 (- 126) 127 (- (6665327491458007 / 4503599627370496))
          = Finite (of_int (- 12415140) * pow2 ((0) - int 24 + 1))"
    by (rule round_binary_certificate) (simp_all add: pow2_def)
  then show ?thesis
    by (simp add: pow2_def)
qed

lemma incremented_4: "position_incremented (Finite (- (6249513 / 4194304))) = Finite (- (3103785 / 2097152))"
  by (simp add: position_incremented_def double_of_rat_def float_of_rat_def double_0_01 sum_4 narrow_4)

lemma updated_4: "position_updated (Finite (- (6249513 / 4194304))) = Finite (- (3103785 / 2097152))"
  by (simp add: position_updated_def incremented_4 double_of_rat_def double_1_5 float_of_rat_def float_minus_1_5)

lemma sum_5:
  "round_binary 53 (- 1022) 1023 (- (847397316881148805 / 576460752303423488)) = Finite (- (6620291538133975 / 4503599627370496))"
proof -
  have "round_binary 53 (- 1022) 1023 (- (847397316881148805 / 576460752303423488))
          = Finite (of_int (- 6620291538133975) * pow2 ((0) - int 53 + 1))"
    by (rule round_binary_certificate) (simp_all add: pow2_def)
  then show ?thesis
    by (simp add: pow2_def)
qed

lemma narrow_5:
  "round_binary 24 (- 126) 127 (- (6620291538133975 / 4503599627370496)) = Finite (- (6165627 / 4194304))"
proof -
  have "round_binary 24 (- 126) 127 (- (6620291538133975 / 4503599627370496))
          = Finite (of_int (- 12331254) * pow2 ((0) - int 24 + 1))"
    by (rule round_binary_certificate) (simp_all add: pow2_def)
  then show ?thesis
    by (simp add: pow2_def)
qed

lemma incremented_5: "position_incremented (Finite (- (3103785 / 2097152))) = Finite (- (6165627 / 4194304))"
  by (simp add: position_incremented_def double_of_rat_def float_of_rat_def double_0_01 sum_5 narrow_5)

lemma updated_5: "position_updated (Finite (- (3103785 / 2097152))) = Finite (- (6165627 / 4194304))"
  by (simp add: position_updated_def incremented_5 double_of_rat_def double_1_5 float_of_rat_def float_minus_1_5)

lemma sum_6:
  "round_binary 53 (- 1022) 1023 (- (841632714855672709 / 576460752303423488)) = Finite (- (6575255584809943 / 4503599627370496))"
proof -
  have "round_binary 53 (- 1022) 1023 (- (841632714855672709 / 576460752303423488))
          = Finite (of_int (- 6575255584809943) * pow2 ((0) - int 53 + 1))"
    by (rule round_binary_certificate) (simp_all add: pow2_def)
  then show ?thesis
    by (simp add: pow2_def)
qed

lemma narrow_6:
  "round_binary 24 (- 126) 127 (- (6575255584809943 / 4503599627370496)) = Finite (- (1530921 / 1048576))"
proof -
  have "round_binary 24 (- 126) 127 (- (6575255584809943 / 4503599627370496))
          = Finite (of_int (- 12247368) * pow2 ((0) - int 24 + 1))"
    by (rule round_binary_certificate) (simp_all add: pow2_def)
  then show ?thesis
    by (simp add: pow2_def)
qed

lemma incremented_6: "position_incremented (Finite (- (6165627 / 4194304))) = Finite (- (1530921 / 1048576))"
  by (simp add: position_incremented_def double_of_rat_def float_of_rat_def double_0_01 sum_6 narrow_6)

lemma updated_6: "position_updated (Finite (- (6165627 / 4194304))) = Finite (- (1530921 / 1048576))"
  by (simp add: position_updated_def incremented_6 double_of_rat_def double_1_5 float_of_rat_def float_minus_1_5)

lemma sum_7:
  "round_binary 53 (- 1022) 1023 (- (835868112830196613 / 576460752303423488)) = Finite (- (6530219631485911 / 4503599627370496))"
proof -
  have "round_binary 53 (- 1022) 1023 (- (835868112830196613 / 576460752303423488))
          = Finite (of_int (- 6530219631485911) * pow2 ((0) - int 53 + 1))"
    by (rule round_binary_certificate) (simp_all add: pow2_def)
  then show ?thesis
    by (simp add: pow2_def)
qed

lemma narrow_7:
  "round_binary 24 (- 126) 127 (- (6530219631485911 / 4503599627370496)) = Finite (- (6081741 / 4194304))"
proof -
  have "round_binary 24 (- 126) 127 (- (6530219631485911 / 4503599627370496))
          = Finite (of_int (- 12163482) * pow2 ((0) - int 24 + 1))"
    by (rule round_binary_certificate) (simp_all add: pow2_def)
  then show ?thesis
    by (simp add: pow2_def)
qed

lemma incremented_7: "position_incremented (Finite (- (1530921 / 1048576))) = Finite (- (6081741 / 4194304))"
  by (simp add: position_incremented_def double_of_rat_def float_of_rat_def double_0_01 sum_7 narrow_7)

lemma updated_7: "position_updated (Finite (- (1530921 / 1048576))) = Finite (- (6081741 / 4194304))"
  by (simp add: position_updated_def incremented_7 double_of_rat_def double_1_5 float_of_rat_def float_minus_1_5)

lemma sum_8:
  "round_binary 53 (- 1022) 1023 (- (830103510804720517 / 576460752303423488)) = Finite (- (6485183678161879 / 4503599627370496))"
proof -
  have "round_binary 53 (- 1022) 1023 (- (830103510804720517 / 576460752303423488))
          = Finite (of_int (- 6485183678161879) * pow2 ((0) - int 53 + 1))"
    by (rule round_binary_certificate) (simp_all add: pow2_def)
  then show ?thesis
    by (simp add: pow2_def)
qed

lemma narrow_8:
  "round_binary 24 (- 126) 127 (- (6485183678161879 / 4503599627370496)) = Finite (- (3019899 / 2097152))"
proof -
  have "round_binary 24 (- 126) 127 (- (6485183678161879 / 4503599627370496))
          = Finite (of_int (- 12079596) * pow2 ((0) - int 24 + 1))"
    by (rule round_binary_certificate) (simp_all add: pow2_def)
  then show ?thesis
    by (simp add: pow2_def)
qed

lemma incremented_8: "position_incremented (Finite (- (6081741 / 4194304))) = Finite (- (3019899 / 2097152))"
  by (simp add: position_incremented_def double_of_rat_def float_of_rat_def double_0_01 sum_8 narrow_8)

lemma updated_8: "position_updated (Finite (- (6081741 / 4194304))) = Finite (- (3019899 / 2097152))"
  by (simp add: position_updated_def incremented_8 double_of_rat_def double_1_5 float_of_rat_def float_minus_1_5)

lemma sum_9:
  "round_binary 53 (- 1022) 1023 (- (824338908779244421 / 576460752303423488)) = Finite (- (6440147724837847 / 4503599627370496))"
proof -
  have "round_binary 53 (- 1022) 1023 (- (824338908779244421 / 576460752303423488))
          = Finite (of_int (- 6440147724837847) * pow2 ((0) - int 53 + 1))"
    by (rule round_binary_certificate) (simp_all add: pow2_def)
  then show ?thesis
    by (simp add: pow2_def)
qed

lemma narrow_9:
  "round_binary 24 (- 126) 127 (- (6440147724837847 / 4503599627370496)) = Finite (- (5997855 / 4194304))"
proof -
  have "round_binary 24 (- 126) 127 (- (6440147724837847 / 4503599627370496))
          = Finite (of_int (- 11995710) * pow2 ((0) - int 24 + 1))"
    by (rule round_binary_certificate) (simp_all add: pow2_def)
  then show ?thesis
    by (simp add: pow2_def)
qed

lemma incremented_9: "position_incremented (Finite (- (3019899 / 2097152))) = Finite (- (5997855 / 4194304))"
  by (simp add: position_incremented_def double_of_rat_def float_of_rat_def double_0_01 sum_9 narrow_9)

lemma updated_9: "position_updated (Finite (- (3019899 / 2097152))) = Finite (- (5997855 / 4194304))"
  by (simp add: position_updated_def incremented_9 double_of_rat_def double_1_5 float_of_rat_def float_minus_1_5)

lemma sum_10:
  "round_binary 53 (- 1022) 1023 (- (818574306753768325 / 576460752303423488)) = Finite (- (6395111771513815 / 4503599627370496))"
proof -
  have "round_binary 53 (- 1022) 1023 (- (818574306753768325 / 576460752303423488))
          = Finite (of_int (- 6395111771513815) * pow2 ((0) - int 53 + 1))"
    by (rule round_binary_certificate) (simp_all add: pow2_def)
  then show ?thesis
    by (simp add: pow2_def)
qed

lemma narrow_10:
  "round_binary 24 (- 126) 127 (- (6395111771513815 / 4503599627370496)) = Finite (- (744489 / 524288))"
proof -
  have "round_binary 24 (- 126) 127 (- (6395111771513815 / 4503599627370496))
          = Finite (of_int (- 11911824) * pow2 ((0) - int 24 + 1))"
    by (rule round_binary_certificate) (simp_all add: pow2_def)
  then show ?thesis
    by (simp add: pow2_def)
qed

lemma incremented_10: "position_incremented (Finite (- (5997855 / 4194304))) = Finite (- (744489 / 524288))"
  by (simp add: position_incremented_def double_of_rat_def float_of_rat_def double_0_01 sum_10 narrow_10)

lemma updated_10: "position_updated (Finite (- (5997855 / 4194304))) = Finite (- (744489 / 524288))"
  by (simp add: position_updated_def incremented_10 double_of_rat_def double_1_5 float_of_rat_def float_minus_1_5)

lemma stored_1_49_list:
  "stored_1_49 = replicate 8 (Finite (6249513 / 4194304))"
  by (simp add: stored_1_49_def float_of_rat_def float_1_49)

lemma double_1_5_value: "double_of_rat (3 / 2) = Finite (3 / 2)"
  by (simp add: double_of_rat_def double_1_5)

lemmas updates_from_1_49 = updated_1 updated_2 updated_3 updated_4 updated_5 updated_6
  updated_7 updated_8 updated_9 updated_10

lemmas increments_from_1_49 = incremented_1 incremented_2 incremented_3 incremented_4
  incremented_5 incremented_6 incremented_7 incremented_8 incremented_9 incremented_10

lemma stored_from_1_49:
  "map (\<lambda>pos. pos ! 0) (position_history 10 stored_1_49) =
     [Finite (3 / 2), Finite (- (3 / 2)), Finite (- (6249513 / 4194304)),
      Finite (- (3103785 / 2097152)), Finite (- (6165627 / 4194304)),
      Finite (- (1530921 / 1048576)), Finite (- (6081741 / 4194304)),
      Finite (- (3019899 / 2097152)), Finite (- (5997855 / 4194304)),
      Finite (- (744489 / 524288))]"
  by (simp add: stored_1_49_list eval_nat_numeral update_position_from_0 updates_from_1_49)

lemma incremented_from_1_49:
  "incremented_history 10 stored_1_49 =
     [Finite (3 / 2), Finite (6333399 / 4194304), Finite (- (6249513 / 4194304)),
      Finite (- (3103785 / 2097152)), Finite (- (6165627 / 4194304)),
      Finite (- (1530921 / 1048576)), Finite (- (6081741 / 4194304)),
      Finite (- (3019899 / 2097152)), Finite (- (5997855 / 4194304)),
      Finite (- (744489 / 524288))]"
  by (simp add: stored_1_49_list eval_nat_numeral update_position_from_0 updates_from_1_49
        increments_from_1_49)

text \<open>
  C5. The update rule of the render loop is \<open>position[i] += 0.01\<close> on a float, followed by
  \<open>if (position[i] > 1.5) position[i] = -1.5\<close>. Starting from a stored 1.49 (the float nearest
  to it), ten updates obtain after their addition the floats nearest to 1.50 and 1.51 and then
  values that climb from -1.49 in steps of 0.01. Exactly one of the ten incremented values,
  the second (1.51), exceeds 1.5: it is the first one that does, and it is the only one that is
  replaced by -1.5 in the stored sequence; the first (1.50) is stored as it is.
\<close>

theorem uniform_wrap_from_1_49:
  "incremented_history 10 stored_1_49 =
     [float_of_rat (150 / 100), float_of_rat (151 / 100), Finite (- (6249513 / 4194304)),
      Finite (- (3103785 / 2097152)), Finite (- (6165627 / 4194304)),
      Finite (- (1530921 / 1048576)), Finite (- (6081741 / 4194304)),
      Finite (- (3019899 / 2097152)), Finite (- (5997855 / 4194304)),
      Finite (- (744489 / 524288))] \<and>
   float_of_rat (150 / 100) = Finite (3 / 2) \<and>
   float_of_rat (151 / 100) = Finite (6333399 / 4194304) \<and>
   map (\<lambda>y. fp_greater y (double_of_rat (3 / 2))) (incremented_history 10 stored_1_49) =
     [False, True, False, False, False, False, False, False, False, False] \<and>
   map (\<lambda>pos. pos ! 0) (position_history 10 stored_1_49) =
     [Finite (3 / 2), Finite (- (3 / 2)), Finite (- (6249513 / 4194304)),
      Finite (- (3103785 / 2097152)), Finite (- (6165627 / 4194304)),
      Finite (- (1530921 / 1048576)), Finite (- (6081741 / 4194304)),
      Finite (- (3019899 / 2097152)), Finite (- (5997855 / 4194304)),
      Finite (- (744489 / 524288))]"
proof -
  have f150: "float_of_rat (150 / 100) = Finite (3 / 2)"
    using float_1_50 by (simp add: float_of_rat_def)
  have f151: "float_of_rat (151 / 100) = Finite (6333399 / 4194304)"
    using float_1_51 by (simp add: float_of_rat_def)
  have "map (\<lambda>y. fp_greater y (double_of_rat (3 / 2))) (incremented_history 10 stored_1_49) =
     [False, True, False, False, False, False, False, False, False, False]"
    unfolding incremented_from_1_49 double_1_5_value by simp
  with f150 f151 incremented_from_1_49 stored_from_1_49 show ?thesis
    by (simp only: simp_thms)
qed

section \<open>Format and present mode of the swapchain\<close>

lemma drop_take_step:
  assumes "i < n" and "n \<le> length xs"
  shows "drop i (take n xs) = xs ! i # drop (Suc i) (take n xs)"
  using assms by (simp add: Cons_nth_drop_Suc [symmetric])

lemma surfaceFormatIndex_from_scan:
  assumes "i \<le> unat n" and "enumerated n surfaceFormats"
  shows "case find wanted_format (drop i (take (unat n) surfaceFormats)) of
           None \<Rightarrow> surfaceFormatIndex_from i n surfaceFormats = Some VK_FORMAT_MAX_ENUM
         | Some surfaceFormat \<Rightarrow>
             \<exists>k < unat n. surfaceFormatIndex_from i n surfaceFormats = Some (word_of_nat k) \<and>
               surfaceFormats ! k = surfaceFormat"
  using assms
proof (induction "unat n - i" arbitrary: i)
  case 0
  then have "i = unat n" by simp
  then show ?case
    by (subst surfaceFormatIndex_from.simps) simp
next
  case (Suc d)
  then have lt: "i < unat n" and len: "unat n \<le> length surfaceFormats"
    by (simp_all add: enumerated_def)
  from Suc.prems(2) lt have small: "i \<noteq> 2147483647"
    by (simp add: enumerated_def)
  note cons = drop_take_step [OF lt len]
  show ?case
  proof (cases "wanted_format (surfaceFormats ! i)")
    case True
    with lt len show ?thesis
      unfolding cons
      by (subst surfaceFormatIndex_from.simps) (auto simp add: wanted_format_def)
  next
    case False
    from Suc.hyps(2) lt have "d = unat n - Suc i" "Suc i \<le> unat n" by simp_all
    note ih = Suc.hyps(1) [OF this Suc.prems(2)]
    from False lt len small
    have rec: "surfaceFormatIndex_from i n surfaceFormats = surfaceFormatIndex_from (Suc i) n surfaceFormats"
      by (subst surfaceFormatIndex_from.simps) (simp add: wanted_format_def)
    from ih False show ?thesis
      unfolding cons rec by simp
  qed
qed

lemma presentModeIndex_from_scan:
  assumes "i \<le> unat n" and "enumerated n presentModes"
  shows "case find wanted_present_mode (drop i (take (unat n) presentModes)) of
           None \<Rightarrow> presentModeIndex_from i n presentModes = Some VK_PRESENT_MODE_MAX_ENUM_KHR
         | Some presentMode \<Rightarrow>
             \<exists>k < unat n. presentModeIndex_from i n presentModes = Some (word_of_nat k) \<and>
               presentModes ! k = presentMode"
  using assms
proof (induction i n presentModes rule: presentModeIndex_from.induct)
  case (1 i n presentModes)
  show ?case
  proof (cases "i = unat n")
    case True
    then show ?thesis
      by (subst presentModeIndex_from.simps) simp
  next
    case False
    with "1.prems" have lt: "i < unat n" and len: "unat n \<le> length presentModes"
      and small: "i \<noteq> 2147483647"
      by (auto simp add: enumerated_def)
    note cons = drop_take_step [OF lt len]
    show ?thesis
    proof (cases "presentModes ! i = VK_PRESENT_MODE_FIFO_KHR")
      case True
      with lt len show ?thesis
        unfolding cons
        by (subst presentModeIndex_from.simps) (auto simp add: wanted_present_mode_def)
    next
      case other: False
      from False lt len other small "1.prems"
      have "case find wanted_present_mode (drop (i + 1) (take (unat n) presentModes)) of
           None \<Rightarrow> presentModeIndex_from (i + 1) n presentModes = Some VK_PRESENT_MODE_MAX_ENUM_KHR
         | Some presentMode \<Rightarrow>
             \<exists>k < unat n. presentModeIndex_from (i + 1) n presentModes = Some (word_of_nat k) \<and>
               presentModes ! k = presentMode"
        by (intro "1.IH") auto
      moreover from False other lt len small
      have rec: "presentModeIndex_from i n presentModes = presentModeIndex_from (i + 1) n presentModes"
        by (subst presentModeIndex_from.simps) simp
      moreover from other have "\<not> wanted_present_mode (presentModes ! i)"
        by (simp add: wanted_present_mode_def)
      ultimately show ?thesis
        unfolding cons rec by simp
    qed
  qed
qed

lemma index_below_sentinel:
  assumes "k < unat n" and "enumerated n xs"
  shows "unat (word_of_nat k :: 32 word) = k" and "(word_of_nat k :: 32 word) \<noteq> 0x7FFFFFFF"
    and "k < length xs"
proof -
  from assms have k: "k < 2147483647" and "k < length xs"
    by (simp_all add: enumerated_def)
  then show "k < length xs" by simp
  from k show u: "unat (word_of_nat k :: 32 word) = k"
    by (simp add: unat_of_nat)
  show "(word_of_nat k :: 32 word) \<noteq> 0x7FFFFFFF"
  proof
    assume "(word_of_nat k :: 32 word) = 0x7FFFFFFF"
    then have "unat (word_of_nat k :: 32 word) = 2147483647" by simp
    with u k show False by simp
  qed
qed

lemma negotiate_swapchain_cases:
  assumes "enumerated surfaceFormatCount surfaceFormats"
    and "enumerated presentModeCount presentModes"
  shows "negotiate_swapchain ndebug surfaceFormatCount surfaceFormats presentModeCount presentModes =
     (case find wanted_format (take (unat surfaceFormatCount) surfaceFormats) of
        None \<Rightarrow>
          if ndebug then UndefinedBehaviour
          else AssertionFailed ''surfaceFormatIndex != VK_FORMAT_MAX_ENUM''
      | Some surfaceFormat \<Rightarrow>
          (case find wanted_present_mode (take (unat presentModeCount) presentModes) of
             None \<Rightarrow>
               if ndebug then UndefinedBehaviour
               else AssertionFailed ''presentModeIndex != VK_PRESENT_MODE_MAX_ENUM_KHR''
           | Some presentMode \<Rightarrow>
               Negotiated (format surfaceFormat) (colorSpace surfaceFormat) presentMode))"
proof -
  note f = surfaceFormatIndex_from_scan [of 0, OF _ assms(1), simplified]
  note m = presentModeIndex_from_scan [of 0, OF _ assms(2), simplified]
  from assms have lens: "length surfaceFormats \<le> 2147483647" "length presentModes \<le> 2147483647"
    by (simp_all add: enumerated_def)
  show ?thesis
  proof (cases "find wanted_format (take (unat surfaceFormatCount) surfaceFormats)")
    case None
    with f have fi: "surfaceFormatIndex_from 0 surfaceFormatCount surfaceFormats = Some VK_FORMAT_MAX_ENUM"
      by simp
    show ?thesis
    proof (cases "find wanted_present_mode (take (unat presentModeCount) presentModes)")
      case none: None
      with m have "presentModeIndex_from 0 presentModeCount presentModes = Some VK_PRESENT_MODE_MAX_ENUM_KHR"
        by simp
      with fi None none lens show ?thesis
        by (simp add: negotiate_swapchain_def VK_FORMAT_MAX_ENUM_def VK_PRESENT_MODE_MAX_ENUM_KHR_def)
    next
      case (Some presentMode)
      with m obtain k where "k < unat presentModeCount"
        "presentModeIndex_from 0 presentModeCount presentModes = Some (word_of_nat k)"
        by auto
      with fi None Some lens index_below_sentinel [OF this(1) assms(2)] show ?thesis
        by (simp add: negotiate_swapchain_def VK_FORMAT_MAX_ENUM_def VK_PRESENT_MODE_MAX_ENUM_KHR_def)
    qed
  next
    case (Some surfaceFormat)
    with f obtain a where a: "a < unat surfaceFormatCount"
      "surfaceFormatIndex_from 0 surfaceFormatCount surfaceFormats = Some (word_of_nat a)"
      "surfaceFormats ! a = surfaceFormat"
      by auto
    note ia = index_below_sentinel [OF a(1) assms(1)]
    show ?thesis
    proof (cases "find wanted_present_mode (take (unat presentModeCount) presentModes)")
      case absent: None
      with m have "presentModeIndex_from 0 presentModeCount presentModes = Some VK_PRESENT_MODE_MAX_ENUM_KHR"
        by simp
      with Some absent a ia lens show ?thesis
        by (simp add: negotiate_swapchain_def VK_FORMAT_MAX_ENUM_def VK_PRESENT_MODE_MAX_ENUM_KHR_def)
    next
      case present: (Some presentMode)
      with m obtain b where b: "b < unat presentModeCount"
        "presentModeIndex_from 0 presentModeCount presentModes = Some (word_of_nat b)"
        "presentModes ! b = presentMode"
        by auto
      note ib = index_below_sentinel [OF b(1) assms(2)]
      from Some present a ia b ib show ?thesis
        by (simp add: negotiate_swapchain_def VK_FORMAT_MAX_ENUM_def VK_PRESENT_MODE_MAX_ENUM_KHR_def)
    qed
  qed
qed

lemma find_wanted:
  assumes "find P xs = Some x"
  shows "P x"
  using assms by (auto simp add: find_Some_iff)

text \<open>
  C8. Of the surface formats and present modes that the driver enumerated (the counts it
  returned, at most as many as the vectors hold), the constructor passes to the swapchain the
  first format equal to \<open>VK_FORMAT_R8G8B8A8_UNORM\<close>, with its colour space, and the first
  present mode equal to \<open>VK_PRESENT_MODE_FIFO_KHR\<close>. When there is no such format, or no such
  mode, nothing else is tried: the constructor stops at the failed \<open>assert\<close> of the missing
  one (the format first).
\<close>

theorem swapchain_first_format_and_mode:
  assumes "enumerated surfaceFormatCount surfaceFormats"
    and "enumerated presentModeCount presentModes"
  shows
    "case (find wanted_format (take (unat surfaceFormatCount) surfaceFormats),
           find wanted_present_mode (take (unat presentModeCount) presentModes)) of
       (Some surfaceFormat, Some presentMode) \<Rightarrow>
          negotiate_swapchain False surfaceFormatCount surfaceFormats presentModeCount presentModes =
            Negotiated (format surfaceFormat) (colorSpace surfaceFormat) presentMode \<and>
          format surfaceFormat = VK_FORMAT_R8G8B8A8_UNORM \<and>
          presentMode = VK_PRESENT_MODE_FIFO_KHR
     | (Some surfaceFormat, None) \<Rightarrow>
          negotiate_swapchain False surfaceFormatCount surfaceFormats presentModeCount presentModes =
            AssertionFailed ''presentModeIndex != VK_PRESENT_MODE_MAX_ENUM_KHR''
     | (None, _) \<Rightarrow>
          negotiate_swapchain False surfaceFormatCount surfaceFormats presentModeCount presentModes =
            AssertionFailed ''surfaceFormatIndex != VK_FORMAT_MAX_ENUM''"
proof (cases "find wanted_format (take (unat surfaceFormatCount) surfaceFormats)")
  case None
  with negotiate_swapchain_cases [OF assms, of False] show ?thesis
    by simp
next
  case (Some surfaceFormat)
  from find_wanted [OF this] have f: "format surfaceFormat = VK_FORMAT_R8G8B8A8_UNORM"
    by (simp add: wanted_format_def)
  show ?thesis
  proof (cases "find wanted_present_mode (take (unat presentModeCount) presentModes)")
    case None
    with Some negotiate_swapchain_cases [OF assms, of False] show ?thesis
      by simp
  next
    case mode: (Some presentMode)
    from find_wanted [OF this] have "presentMode = VK_PRESENT_MODE_FIFO_KHR"
      by (simp add: wanted_present_mode_def)
    with Some mode f negotiate_swapchain_cases [OF assms, of False] show ?thesis
      by simp
  qed
qed

lemma example_enumerated:
  "enumerated 3 example_surfaceFormats" "enumerated 3 example_presentModes"
  "enumerated 2 no_wanted_surfaceFormats" "enumerated 1 example_presentModes"
  by (simp_all add: enumerated_def example_surfaceFormats_def example_presentModes_def
        no_wanted_surfaceFormats_def)

theorem swapchain_first_format_and_mode_witness:
  "enumerated 3 example_surfaceFormats \<and> enumerated 3 example_presentModes \<and>
   negotiate_swapchain False 3 example_surfaceFormats 3 example_presentModes =
     Negotiated VK_FORMAT_R8G8B8A8_UNORM 0 VK_PRESENT_MODE_FIFO_KHR \<and>
   enumerated 2 no_wanted_surfaceFormats \<and>
   negotiate_swapchain False 2 no_wanted_surfaceFormats 3 example_presentModes =
     AssertionFailed ''surfaceFormatIndex != VK_FORMAT_MAX_ENUM'' \<and>
   enumerated 1 example_presentModes \<and>
   negotiate_swapchain False 3 example_surfaceFormats 1 example_presentModes =
     AssertionFailed ''presentModeIndex != VK_PRESENT_MODE_MAX_ENUM_KHR''"
proof -
  have f: "find wanted_format (take (unat (3 :: 32 word)) example_surfaceFormats) =
             Some \<lparr>format = VK_FORMAT_R8G8B8A8_UNORM, colorSpace = 0\<rparr>"
    and m: "find wanted_present_mode (take (unat (3 :: 32 word)) example_presentModes) =
             Some VK_PRESENT_MODE_FIFO_KHR"
    and n: "find wanted_format (take (unat (2 :: 32 word)) no_wanted_surfaceFormats) = None"
    and k: "find wanted_present_mode (take (unat (1 :: 32 word)) example_presentModes) = None"
    by (simp_all add: example_surfaceFormats_def example_presentModes_def
          no_wanted_surfaceFormats_def wanted_format_def wanted_present_mode_def)
  note swapchain_first_format_and_mode
         [OF example_enumerated(1) example_enumerated(2), unfolded f m]
    swapchain_first_format_and_mode
         [OF example_enumerated(3) example_enumerated(2), unfolded n]
    swapchain_first_format_and_mode
         [OF example_enumerated(1) example_enumerated(4), unfolded f k]
  with example_enumerated show ?thesis
    by simp
qed

section \<open>The destructor\<close>

text \<open>A statement that returns, writes nothing and logs only calls that release something;
  a sequence of such statements is one.\<close>

lemma exec_releases:
  assumes "\<And>s w. s \<in> set ss \<Longrightarrow>
             \<exists>w' es. s w = Ok w' \<and> aout w' = aout w \<and> calls w' = calls w @ es \<and>
               list_all (\<lambda>e. is_release (fst e)) es"
  shows "\<exists>w' es. exec ss w = Ok w' \<and> aout w' = aout w \<and> calls w' = calls w @ es \<and>
           list_all (\<lambda>e. is_release (fst e)) es"
  using assms
proof (induction ss arbitrary: w)
  case Nil
  show ?case by simp
next
  case (Cons s ss)
  from Cons.prems [of s w] obtain w1 es1 where s: "s w = Ok w1" "aout w1 = aout w"
    "calls w1 = calls w @ es1" "list_all (\<lambda>e. is_release (fst e)) es1"
    by auto
  from Cons.IH [of w1] Cons.prems obtain w2 es2 where ss: "exec ss w1 = Ok w2" "aout w2 = aout w1"
    "calls w2 = calls w1 @ es2" "list_all (\<lambda>e. is_release (fst e)) es2"
    by (meson list.set_intros(2))
  from s ss have "exec (s # ss) w = Ok w2" "aout w2 = aout w" "calls w2 = calls w @ (es1 @ es2)"
    "list_all (\<lambda>e. is_release (fst e)) (es1 @ es2)"
    by simp_all
  then show ?case by blast
qed

lemma VkRenderer_destructor_statements:
  "\<exists>ss. VkRenderer_destructor ndebug device_wait_idle free_descriptor_sets w =
          exec (VK_CHECK_ERROR ndebug text_device_wait_idle
                  (vk (vkDeviceWaitIdle (mDevice (renderer w))) device_wait_idle) # ss) w \<and>
        (\<forall>s \<in> set ss. \<forall>w. \<exists>w' es. s w = Ok w' \<and> aout w' = aout w \<and> calls w' = calls w @ es \<and>
               list_all (\<lambda>e. is_release (fst e)) es)"
  apply (intro exI conjI)
   apply (simp only: VkRenderer_destructor_def Let_def append_Cons append_Nil)
  apply (auto simp add: vk_void_def discarded_def vk_def assign_def is_release_def)
  done

lemma exec_assign:
  "exec (assign f # ss) w = exec ss (w\<lparr>renderer := f (renderer w)\<rparr>)"
  by (simp add: assign_def)

lemma example_world_empty: "calls example_world = []" "aout example_world = []"
  by (simp_all add: example_world_def)

lemma example_destructor_log:
  "VkRenderer_destructor False VK_SUCCESS VK_SUCCESS example_world =
     Ok \<lparr>renderer = example_renderer
            \<lparr>mUniformData := [], mUniformMemories := [], mUniformBuffers := [],
             mFramebuffers := [], mSwapchainImageViews := [], mSemaphores := [],
             mFencesForAcquire := [], mFencesForSubmit := []\<rparr>,
         calls =
           [(vkDeviceWaitIdle 2, Some VK_SUCCESS),
            (vkRelease ''vkFreeDescriptorSets'' 2 [17, 100, 101], Some VK_SUCCESS),
            (vkRelease ''vkDestroyDescriptorPool'' 2 [17], None),
            (vkRelease ''vkDestroySampler'' 2 [24], None),
            (vkRelease ''vkDestroyImageView'' 2 [23], None),
            (vkRelease ''vkFreeMemory'' 2 [22], None),
            (vkRelease ''vkDestroyImage'' 2 [19], None),
            (vkRelease ''vkDestroyTexture'' 2 [18], None),
            (vkRelease ''vkUnmapMemory'' 2 [90], None),
            (vkRelease ''vkUnmapMemory'' 2 [91], None),
            (vkRelease ''vkFreeMemory'' 2 [90], None),
            (vkRelease ''vkFreeMemory'' 2 [91], None),
            (vkRelease ''vkDestroyBuffer'' 2 [80], None),
            (vkRelease ''vkDestroyBuffer'' 2 [81], None),
            (vkRelease ''vkFreeMemory'' 2 [16], None),
            (vkRelease ''vkDestroyBuffer'' 2 [15], None),
            (vkRelease ''vkDestroyDescriptorSetLayout'' 2 [12], None),
            (vkRelease ''vkDestroyPipelineLayout'' 2 [13], None),
            (vkRelease ''vkDestroyPipeline'' 2 [14], None),
            (vkRelease ''vkDestroyShaderModule'' 2 [8], None),
            (vkRelease ''vkDestroyShaderModule'' 2 [9], None),
            (vkRelease ''vkDestroyFramebuffer'' 2 [70], None),
            (vkRelease ''vkDestroyFramebuffer'' 2 [71], None),
            (vkRelease ''vkDestroyRenderPass'' 2 [7], None),
            (vkRelease ''vkDestroyImageView'' 2 [60], None),
            (vkRelease ''vkDestroyImageView'' 2 [61], None),
            (vkRelease ''vkDestroySemaphore'' 2 [50], None),
            (vkRelease ''vkDestroySemaphore'' 2 [51], None),
            (vkRelease ''vkDestroyFence'' 2 [40], None),
            (vkRelease ''vkDestroyFence'' 2 [41], None),
            (vkRelease ''vkDestroyFence'' 2 [30], None),
            (vkRelease ''vkDestroyFence'' 2 [31], None),
            (vkRelease ''vkFreeCommandBuffers'' 2 [6, 20, 21], None),
            (vkRelease ''vkDestroyCommandPool'' 2 [6], None),
            (vkRelease ''vkDestroySwapchainKHR'' 2 [5], None),
            (vkRelease ''vkDestroySurfaceKHR'' 1 [4], None),
            (vkRelease ''vkDestroyDevice'' 2 [], None),
            (vkRelease ''vkDestroyInstance'' 1 [], None)],
         aout = []\<rparr>"
  by (simp add: VkRenderer_destructor_def example_world_def example_renderer_def Let_def
        exec_VK_CHECK_ERROR exec_vk_void exec_discarded exec_assign del: exec.simps(2))

text \<open>
  C9. The first call of the destructor is \<open>vkDeviceWaitIdle(mDevice)\<close>, and every call it
  makes after that one destroys or frees something; no resource is released before the wait.
  The wait is checked: the destructor releases anything only when the wait returned
  \<open>VK_SUCCESS\<close>, that is, when the device is idle; then it runs to its end. Otherwise the
  process aborts with every fence, semaphore, command buffer, buffer, image and memory
  allocation still alive.
\<close>

theorem destructor_waits_for_idle_first:
  "(case logged w (VkRenderer_destructor False device_wait_idle free_descriptor_sets w) of
      [] \<Rightarrow> False
    | first # released \<Rightarrow>
        first = (vkDeviceWaitIdle (mDevice (renderer w)), Some device_wait_idle) \<and>
        \<not> is_release (fst first) \<and>
        list_all (\<lambda>e. is_release (fst e)) released \<and>
        (released \<noteq> [] \<longrightarrow> device_wait_idle = VK_SUCCESS)) \<and>
   (if device_wait_idle \<noteq> VK_SUCCESS
    then aborted (VkRenderer_destructor False device_wait_idle free_descriptor_sets w) \<and>
         written w (VkRenderer_destructor False device_wait_idle free_descriptor_sets w) =
           [''vkDeviceWaitIdle(mDevice) returns '' @ vkToString device_wait_idle @ ''.'']
    else returned (VkRenderer_destructor False device_wait_idle free_descriptor_sets w) \<and>
         written w (VkRenderer_destructor False device_wait_idle free_descriptor_sets w) = [])"
proof -
  let ?wait = "(vkDeviceWaitIdle (mDevice (renderer w)), Some device_wait_idle)"
  from VkRenderer_destructor_statements [of False device_wait_idle free_descriptor_sets w]
  obtain ss where run: "VkRenderer_destructor False device_wait_idle free_descriptor_sets w =
          exec (VK_CHECK_ERROR False text_device_wait_idle
                  (vk (vkDeviceWaitIdle (mDevice (renderer w))) device_wait_idle) # ss) w"
    and ss: "\<And>s w. s \<in> set ss \<Longrightarrow> \<exists>w' es. s w = Ok w' \<and> aout w' = aout w \<and>
               calls w' = calls w @ es \<and> list_all (\<lambda>e. is_release (fst e)) es"
    by blast
  have wait: "\<not> is_release (fst ?wait)"
    by (simp add: is_release_def)
  show ?thesis
  proof (cases "device_wait_idle = VK_SUCCESS")
    case False
    with run have "VkRenderer_destructor False device_wait_idle free_descriptor_sets w =
        Abort (w\<lparr>calls := calls w @ [?wait],
                 aout := aout w @ [check_message (text_device_wait_idle, device_wait_idle)]\<rparr>)"
      by (simp add: exec_VK_CHECK_ERROR del: exec.simps)
    with False wait show ?thesis
      by (simp add: logged_def new_calls_def aborted_def written_def check_message_def
            text_device_wait_idle_def)
  next
    case True
    with run have "VkRenderer_destructor False device_wait_idle free_descriptor_sets w =
        exec ss (w\<lparr>calls := calls w @ [?wait]\<rparr>)"
      by (simp add: exec_VK_CHECK_ERROR del: exec.simps)
    moreover from exec_releases [of ss "w\<lparr>calls := calls w @ [?wait]\<rparr>"] ss
    obtain w' es where "exec ss (w\<lparr>calls := calls w @ [?wait]\<rparr>) = Ok w'" "aout w' = aout w"
      "calls w' = calls w @ ?wait # es" "list_all (\<lambda>e. is_release (fst e)) es"
      by auto
    ultimately show ?thesis
      using True wait
      by (auto simp add: logged_def new_calls_def returned_def written_def)
  qed
qed

theorem destructor_waits_for_idle_first_witness:
  "logged example_world (VkRenderer_destructor False VK_SUCCESS VK_SUCCESS example_world) ! 0 =
     (vkDeviceWaitIdle 2, Some VK_SUCCESS) \<and>
   logged example_world (VkRenderer_destructor False VK_SUCCESS VK_SUCCESS example_world) ! 30 =
     (vkRelease ''vkDestroyFence'' 2 [30], None) \<and>
   list_all (\<lambda>e. is_release (fst e))
     (tl (logged example_world (VkRenderer_destructor False VK_SUCCESS VK_SUCCESS example_world))) \<and>
   returned (VkRenderer_destructor False VK_SUCCESS VK_SUCCESS example_world) \<and>
   aborted (VkRenderer_destructor False VK_ERROR_OUT_OF_HOST_MEMORY VK_SUCCESS example_world) \<and>
   logged example_world
     (VkRenderer_destructor False VK_ERROR_OUT_OF_HOST_MEMORY VK_SUCCESS example_world) =
     [(vkDeviceWaitIdle 2, Some VK_ERROR_OUT_OF_HOST_MEMORY)]"
proof -
  have log: "logged example_world (VkRenderer_destructor False VK_SUCCESS VK_SUCCESS example_world) \<noteq> []"
    "logged example_world (VkRenderer_destructor False VK_SUCCESS VK_SUCCESS example_world) ! 30 =
       (vkRelease ''vkDestroyFence'' 2 [30], None)"
    by (simp_all add: example_destructor_log logged_def new_calls_def example_world_empty)
  then obtain first released where
    "logged example_world (VkRenderer_destructor False VK_SUCCESS VK_SUCCESS example_world) =
       first # released"
    by (auto simp add: neq_Nil_conv)
  with destructor_waits_for_idle_first [where w = example_world
         and device_wait_idle = VK_SUCCESS and free_descriptor_sets = VK_SUCCESS] log(2)
  have ok: "logged example_world (VkRenderer_destructor False VK_SUCCESS VK_SUCCESS example_world) ! 0 =
     (vkDeviceWaitIdle 2, Some VK_SUCCESS)"
    "logged example_world (VkRenderer_destructor False VK_SUCCESS VK_SUCCESS example_world) ! 30 =
     (vkRelease ''vkDestroyFence'' 2 [30], None)"
    "list_all (\<lambda>e. is_release (fst e))
     (tl (logged example_world (VkRenderer_destructor False VK_SUCCESS VK_SUCCESS example_world)))"
    "returned (VkRenderer_destructor False VK_SUCCESS VK_SUCCESS example_world)"
    by (simp_all add: example_world_def example_renderer_def)
  obtain log' where log': "log' = logged example_world
     (VkRenderer_destructor False VK_ERROR_OUT_OF_HOST_MEMORY VK_SUCCESS example_world)"
    by simp
  with destructor_waits_for_idle_first [where w = example_world
         and device_wait_idle = VK_ERROR_OUT_OF_HOST_MEMORY and free_descriptor_sets = VK_SUCCESS]
  have "aborted (VkRenderer_destructor False VK_ERROR_OUT_OF_HOST_MEMORY VK_SUCCESS example_world)"
    "log' = [(vkDeviceWaitIdle 2, Some VK_ERROR_OUT_OF_HOST_MEMORY)]"
    by (cases log'; simp add: example_world_def example_renderer_def split: list.splits)+
  with ok log' show ?thesis
    by simp
qed

section \<open>The submit fence gates the reuse of a command buffer\<close>

lemma fence_discipline_append:
  "fence_discipline g (es @ es') \<longleftrightarrow>
     fence_discipline g es \<and> fence_discipline (gpu_view_after g es) es'"
  by (induction es arbitrary: g) (simp_all add: gpu_view_after_def)

lemma gpu_view_after_append:
  "gpu_view_after g (es @ es') = gpu_view_after (gpu_view_after g es) es'"
  by (simp add: gpu_view_after_def)

lemma reset_follows_wait_append:
  assumes "reset_follows_wait es" and "reset_follows_wait es'"
  shows "reset_follows_wait (es @ es')"
  using assms
proof (induction es rule: reset_follows_wait.induct)
  case 1
  then show ?case by simp
next
  case (2 e)
  then show ?case
    by (cases es') (auto split: vk_call.splits)
next
  case (3 e e' es)
  then show ?case by simp
qed

lemma at_most_one_in_flight_discipline:
  assumes "fence_discipline g es" and "distinct (map fst (in_flight g))"
  shows "at_most_one_in_flight g es"
  using assms
proof (induction es arbitrary: g)
  case Nil
  then show ?case by simp
next
  case (Cons e es)
  from Cons.prems have "distinct (map fst (in_flight (observe g e)))"
    by (auto simp add: observe_def allowed_def command_buffer_of_def distinct_map_filter
          split: vk_call.splits)
  with Cons show ?case by simp
qed

text \<open>One frame, or the part of it before an abort, started with a view in which every
  submission in flight is that of a slot.\<close>

lemma slot_free_after_wait:
  assumes "in_flight_of_slots r g" and "distinct (mCommandBuffers r)"
    and "i < length (mCommandBuffers r)" and "i < length (mFencesForSubmit r)"
  shows "mCommandBuffers r ! i \<notin>
           fst ` set (filter (\<lambda>p. snd p \<noteq> mFencesForSubmit r ! i) (in_flight g))"
proof
  assume "mCommandBuffers r ! i \<in>
            fst ` set (filter (\<lambda>p. snd p \<noteq> mFencesForSubmit r ! i) (in_flight g))"
  then obtain fence where p: "(mCommandBuffers r ! i, fence) \<in> set (in_flight g)"
    and other: "fence \<noteq> mFencesForSubmit r ! i"
    by auto
  from p assms(1) have "(mCommandBuffers r ! i, fence) \<in> set (zip (mCommandBuffers r) (mFencesForSubmit r))"
    by (auto simp add: in_flight_of_slots_def list_all_iff)
  then obtain j where j: "j < length (mCommandBuffers r)" "mCommandBuffers r ! j = mCommandBuffers r ! i"
    "mFencesForSubmit r ! j = fence"
    by (auto simp add: in_set_zip)
  with assms(2,3) have "j = i"
    by (simp add: nth_eq_iff_index_eq)
  with j other show False by simp
qed

lemma frame_discipline_after_wait:
  assumes "mFencesForSubmit r ! mFrameIndex r \<notin> set (signalled g)"
    and "mFencesForSubmit r ! mFrameIndex r \<notin> snd ` set (in_flight g)"
    and "mCommandBuffers r ! mFrameIndex r \<notin> fst ` set (in_flight g)"
    and "mFencesForAcquire r ! mFrameIndex r \<noteq> mFencesForSubmit r ! mFrameIndex r"
  shows "fence_discipline g
           (log_until_abort
              (step2_update_uniform r @ step3_acquire r env @ step4_wait_acquire r env @
               step5_record r env img @ step6_submit r env @ step7_present r env img @
               step8_advance r))"
  using assms
  by (auto simp add: step2_update_uniform_def step3_acquire_def step4_wait_acquire_def
        step5_record_def step6_submit_def step7_present_def step8_advance_def Let_def
        checked_def allowed_def observe_def command_buffer_of_def)

lemma frame_discipline:
  assumes "in_flight_of_slots r g" and "slots_ok r" and "handles_distinct r"
  shows "fence_discipline g (log_until_abort (frame_steps r env img))"
proof -
  let ?i = "mFrameIndex r"
  let ?fence = "mFencesForSubmit r ! ?i"
  let ?rest = "step2_update_uniform r @ step3_acquire r env @ step4_wait_acquire r env @
               step5_record r env img @ step6_submit r env @ step7_present r env img @
               step8_advance r"
  from assms(2) have i: "?i < length (mCommandBuffers r)" "?i < length (mFencesForSubmit r)"
    "?i < length (mFencesForAcquire r)"
    by (simp_all add: slots_ok_def Let_def)
  from assms(3) i have other: "mFencesForAcquire r ! ?i \<noteq> ?fence"
    by (auto simp add: handles_distinct_def set_conv_nth)
  show ?thesis
  proof (cases "submit_fence_wait env = VK_SUCCESS \<and> submit_fence_reset env = VK_SUCCESS")
    case False
    then show ?thesis
      by (auto simp add: frame_steps_def step1_wait_submit_def checked_def allowed_def
            command_buffer_of_def)
  next
    case True
    define g' where "g' = g\<lparr>in_flight := filter (\<lambda>p. snd p \<noteq> ?fence) (in_flight g),
                             signalled := removeAll ?fence (?fence # signalled g)\<rparr>"
    have "mCommandBuffers r ! ?i \<notin> fst ` set (in_flight g')"
      using slot_free_after_wait [OF assms(1) _ i(1,2)] assms(3)
      by (simp add: g'_def handles_distinct_def)
    moreover have "?fence \<notin> set (signalled g')" "?fence \<notin> snd ` set (in_flight g')"
      by (auto simp add: g'_def)
    ultimately have "fence_discipline g' (log_until_abort ?rest)"
      using other by (intro frame_discipline_after_wait)
    with True show ?thesis
      by (simp add: frame_steps_def step1_wait_submit_def checked_def allowed_def
            command_buffer_of_def observe_def g'_def)
  qed
qed

lemma frame_reset_follows_wait:
  "reset_follows_wait (log_until_abort (frame_steps r env img))"
  by (simp add: frame_steps_defs Let_def checked_def)

text \<open>A frame only submits the command buffer of its slot with the submit fence of its
  slot.\<close>

lemma in_flight_of_slots_observe:
  assumes "in_flight_of_slots r g"
    and "case fst e of
           vkQueueSubmit queue commandBuffer semaphore fence \<Rightarrow>
             (commandBuffer, fence) \<in> set (zip (mCommandBuffers r) (mFencesForSubmit r))
         | _ \<Rightarrow> True"
  shows "in_flight_of_slots r (observe g e)"
  using assms
  by (auto simp add: in_flight_of_slots_def observe_def list_all_iff split: vk_call.splits)

lemma in_flight_of_slots_after:
  assumes "in_flight_of_slots r g"
    and "\<forall>e \<in> set es. case fst e of
           vkQueueSubmit queue commandBuffer semaphore fence \<Rightarrow>
             (commandBuffer, fence) \<in> set (zip (mCommandBuffers r) (mFencesForSubmit r))
         | _ \<Rightarrow> True"
  shows "in_flight_of_slots r (gpu_view_after g es)"
  using assms
proof (induction es arbitrary: g)
  case Nil
  then show ?case by (simp add: gpu_view_after_def)
next
  case (Cons e es)
  from Cons.prems have "in_flight_of_slots r (observe g e)"
    by (intro in_flight_of_slots_observe) simp_all
  with Cons show ?case
    by (simp add: gpu_view_after_def)
qed

lemma in_flight_of_slots_frame:
  assumes "in_flight_of_slots r g" and "slots_ok r"
  shows "in_flight_of_slots r (gpu_view_after g (frame_steps r env img))"
proof -
  from assms(2) have "mFrameIndex r < length (mCommandBuffers r)"
    "mFrameIndex r < length (mFencesForSubmit r)"
    by (simp_all add: slots_ok_def Let_def)
  then have "(mCommandBuffers r ! mFrameIndex r, mFencesForSubmit r ! mFrameIndex r) \<in>
               set (zip (mCommandBuffers r) (mFencesForSubmit r))"
    by (auto simp add: in_set_zip)
  with assms(1) show ?thesis
    by (intro in_flight_of_slots_after) (simp_all add: frame_steps_defs Let_def)
qed

lemma log_until_abort_all_success:
  assumes "first_failure (checked_calls env) = None"
  shows "log_until_abort (frame_steps r env img) = frame_steps r env img"
  using assms
  by (simp add: first_failure_def checked_calls_def frame_steps_defs Let_def checked_def
        split: if_splits)

lemma logged_render_frames_Cons:
  assumes "render False env w = Ok w1" and "calls w1 = calls w @ es"
    and "render_frames False envs w1 \<noteq> Undefined"
  shows "logged w (render_frames False (env # envs) w) =
           es @ logged w1 (render_frames False envs w1)"
proof (cases "render_frames False envs w1")
  case (Ok w')
  with render_frames_calls [of False envs w1 w'] obtain es' where "calls w' = calls w1 @ es'"
    by auto
  with assms Ok show ?thesis
    by (simp add: logged_def new_calls_def)
next
  case (Abort w')
  with render_frames_calls [of False envs w1 w'] obtain es' where "calls w' = calls w1 @ es'"
    by auto
  with assms Abort show ?thesis
    by (simp add: logged_def new_calls_def)
next
  case Undefined
  with assms show ?thesis by simp
qed

lemma render_frames_discipline:
  assumes "slots_ok (renderer w)" and "handles_distinct (renderer w)"
    and "in_flight_of_slots (renderer w) g"
    and "render_frames False envs w \<noteq> Undefined"
  shows "fence_discipline g (logged w (render_frames False envs w)) \<and>
         reset_follows_wait (logged w (render_frames False envs w))"
  using assms
proof (induction envs arbitrary: w g)
  case Nil
  show ?case by (simp add: logged_def new_calls_def)
next
  case (Cons env envs)
  let ?steps = "frame_steps (renderer w) env (image_of env)"
  show ?case
  proof (cases "render False env w")
    case (Ok w1)
    from render_Ok [OF Ok] have log: "calls w1 = calls w @ ?steps"
      and same: "mCommandBuffers (renderer w1) = mCommandBuffers (renderer w)"
        "mFencesForSubmit (renderer w1) = mFencesForSubmit (renderer w)"
        "mFencesForAcquire (renderer w1) = mFencesForAcquire (renderer w)"
      by simp_all
    from render_Ok_results [OF Ok] have all: "log_until_abort ?steps = ?steps"
      by (intro log_until_abort_all_success) simp
    from Cons.prems(4) Ok have defined: "render_frames False envs w1 \<noteq> Undefined"
      by simp
    have "slots_ok (renderer w1)"
      using Ok Cons.prems(1) by (rule render_Ok_slots_ok)
    moreover have "handles_distinct (renderer w1)"
      using Cons.prems(2) by (simp add: handles_distinct_def same)
    moreover have "in_flight_of_slots (renderer w1) (gpu_view_after g ?steps)"
      using in_flight_of_slots_frame [OF Cons.prems(3) Cons.prems(1), of env "image_of env"]
      by (simp add: in_flight_of_slots_def same)
    ultimately have later:
      "fence_discipline (gpu_view_after g ?steps) (logged w1 (render_frames False envs w1))"
      "reset_follows_wait (logged w1 (render_frames False envs w1))"
      using defined Cons.IH by blast+
    from frame_discipline [OF Cons.prems(3) Cons.prems(1) Cons.prems(2), of env "image_of env"]
      frame_reset_follows_wait [of "renderer w" env "image_of env"] all
    have "fence_discipline g ?steps" "reset_follows_wait ?steps"
      by simp_all
    with later show ?thesis
      unfolding logged_render_frames_Cons [OF Ok log defined]
      by (simp add: fence_discipline_append reset_follows_wait_append)
  next
    case (Abort w1)
    from render_Abort [OF Abort] have "calls w1 = calls w @ log_until_abort ?steps"
      by auto
    with Abort have "logged w (render_frames False (env # envs) w) = log_until_abort ?steps"
      by (simp add: logged_def new_calls_def)
    with frame_discipline [OF Cons.prems(3) Cons.prems(1) Cons.prems(2), of env "image_of env"]
      frame_reset_follows_wait [of "renderer w" env "image_of env"]
    show ?thesis by simp
  next
    case Undefined
    with Cons.prems(4) show ?thesis by simp
  qed
qed

lemma fence_discipline_rejects_reuse_in_flight:
  "\<not> fence_discipline \<lparr>in_flight = [], signalled = []\<rparr>
       [(vkQueueSubmit 3 20 50 30, Some VK_SUCCESS),
        (vkResetCommandBuffer 20, Some VK_SUCCESS)]"
  by (simp add: allowed_def observe_def command_buffer_of_def)

text \<open>
  C2. Over any number of render calls on a renderer as the constructor leaves it, whichever
  way the run ends: a call that resets, records into or submits a command buffer is made
  only when no submission of that command buffer is in flight, that is, after a
  \<open>vkWaitForFences\<close> on the fence of its last submission has returned \<open>VK_SUCCESS\<close>; a fence
  is passed to \<open>vkQueueSubmit\<close> only when it is unsignalled and belongs to no submission in
  flight; every wait that succeeds is followed at once by the reset of the same fence; and
  at no moment are two submissions of one command buffer in flight.
\<close>

theorem command_buffer_reused_after_fence:
  assumes "slots_ok (renderer w)" and "handles_distinct (renderer w)"
    and "render_frames False envs w \<noteq> Undefined"
  shows "fence_discipline (gpu_view_after_constructor (renderer w))
           (logged w (render_frames False envs w)) \<and>
         reset_follows_wait (logged w (render_frames False envs w)) \<and>
         at_most_one_in_flight (gpu_view_after_constructor (renderer w))
           (logged w (render_frames False envs w))"
proof -
  have start: "in_flight_of_slots (renderer w) (gpu_view_after_constructor (renderer w))"
    by (simp add: in_flight_of_slots_def gpu_view_after_constructor_def)
  from render_frames_discipline [OF assms(1,2) start assms(3)]
  have "fence_discipline (gpu_view_after_constructor (renderer w))
           (logged w (render_frames False envs w))"
    and "reset_follows_wait (logged w (render_frames False envs w))"
    by simp_all
  moreover from this(1)
  have "at_most_one_in_flight (gpu_view_after_constructor (renderer w))
           (logged w (render_frames False envs w))"
    by (rule at_most_one_in_flight_discipline) (simp add: gpu_view_after_constructor_def)
  ultimately show ?thesis by simp
qed

lemma example_handles_distinct: "handles_distinct (renderer example_world)"
  by (simp add: handles_distinct_def example_world_def example_renderer_def)

theorem command_buffer_reused_after_fence_witness:
  "slots_ok (renderer example_world) \<and> handles_distinct (renderer example_world) \<and>
   returned (render_frames False
     [all_success 1, all_success 0, all_success 0, all_success 1, all_success 1] example_world) \<and>
   slots_used (logged example_world (render_frames False
     [all_success 1, all_success 0, all_success 0, all_success 1, all_success 1] example_world)) =
     [0, 1, 0, 1, 0] \<and>
   fence_discipline \<lparr>in_flight = [], signalled = [30, 31]\<rparr>
     (logged example_world (render_frames False
        [all_success 1, all_success 0, all_success 0, all_success 1, all_success 1] example_world)) \<and>
   reset_follows_wait
     (logged example_world (render_frames False
        [all_success 1, all_success 0, all_success 0, all_success 1, all_success 1] example_world)) \<and>
   at_most_one_in_flight \<lparr>in_flight = [], signalled = [30, 31]\<rparr>
     (logged example_world (render_frames False
        [all_success 1, all_success 0, all_success 0, all_success 1, all_success 1] example_world))"
proof -
  let ?envs = "[all_success 1, all_success 0, all_success 0, all_success 1, all_success 1]"
  have start: "mFrameIndex (renderer example_world) = 0"
    "length (mSwapchainImages (renderer example_world)) = 2"
    "gpu_view_after_constructor (renderer example_world) = \<lparr>in_flight = [], signalled = [30, 31]\<rparr>"
    by (simp_all add: example_world_def example_renderer_def gpu_view_after_constructor_def)
  have "\<exists>w'. render_frames False ?envs example_world = Ok w'"
    by (rule render_frames_succeeds [OF example_slots_ok])
       (auto simp add: all_success_no_failure start)
  then obtain w' where run: "render_frames False ?envs example_world = Ok w'" ..
  have "[0..<5] = [0, 1, 2, 3, 4 :: nat]"
    by (simp add: upt_rec)
  with render_frames_Ok [OF run example_slots_ok]
  have used: "slots_used (new_calls example_world w') = [0, 1, 0, 1, 0]"
    by (simp add: start)
  from run have "render_frames False ?envs example_world \<noteq> Undefined"
    by simp
  from command_buffer_reused_after_fence [OF example_slots_ok example_handles_distinct this]
    run used example_slots_ok example_handles_distinct
  show ?thesis
    by (simp add: start returned_def logged_def)
qed

end
